theory Spec2Isabelle
  imports Complex_Main "HOL-Library.Word"
begin

section \<open>Data model\<close>

text \<open>
  The component \<^verbatim>\<open>App\<close> of \<^verbatim>\<open>src/App.tsx\<close> holds three pieces of logic: the pixel
  sampling loop and the note placement of \<^verbatim>\<open>processSilhouette\<close>, and the playback loop of
  \<^verbatim>\<open>togglePlayback\<close>.

  A candidate spot is the object \<^verbatim>\<open>{ x, y }\<close> pushed onto \<^verbatim>\<open>validSpots\<close>. The fields are
  called \<open>spot_x\<close> and \<open>spot_y\<close> here, so that \<open>x\<close> and \<open>y\<close> stay free for variables.
\<close>

record Spot =
  spot_x :: nat
  spot_y :: nat

text \<open>
  \<^verbatim>\<open>NoteData\<close> and \<^verbatim>\<open>PlacedNote\<close> are declared in \<^verbatim>\<open>./types\<close>; the fields used by
  \<^verbatim>\<open>App.tsx\<close> are \<^verbatim>\<open>value\<close>, \<^verbatim>\<open>frequency\<close>, \<^verbatim>\<open>duration\<close> and, for a placed note,
  \<^verbatim>\<open>id\<close>, \<^verbatim>\<open>x\<close>, \<^verbatim>\<open>y\<close>. The spread \<^verbatim>\<open>...note\<close> copies the first three.
\<close>

record NoteData =
  note_value :: string
  frequency :: real
  duration :: real

record PlacedNote = NoteData +
  note_id :: string
  note_x :: nat
  note_y :: nat

text \<open>
  \<^verbatim>\<open>imageData.data\<close> is a \<^verbatim>\<open>Uint8ClampedArray\<close>: a sequence of bytes, four per pixel
  (red, green, blue, alpha), rows of 500 pixels.
\<close>

type_synonym ImageData = "8 word list"

section \<open>Sampling the silhouette\<close>

definition step :: nat where
  "step = 15"

text \<open>
  Reading a typed array outside its range gives \<^verbatim>\<open>undefined\<close>, and \<^verbatim>\<open>undefined < 248\<close>
  is false.
\<close>

definition channel :: "ImageData \<Rightarrow> nat \<Rightarrow> 8 word option" where
  "channel data i = (if i < length data then Some (data ! i) else None)"

definition below248 :: "8 word option \<Rightarrow> bool" where
  "below248 c = (case c of None \<Rightarrow> False | Some w \<Rightarrow> w < 248)"

text \<open>The inner loop \<^verbatim>\<open>for (let x = step; x < 500 - step; x += step)\<close>, from column \<open>x\<close> on.\<close>

function scanRow :: "ImageData \<Rightarrow> nat \<Rightarrow> nat \<Rightarrow> Spot list \<Rightarrow> Spot list" where
  "scanRow data y x validSpots =
     (if x < 500 - step then
        (let index = (y * 500 + x) * 4;
             r = channel data index;
             g = channel data (index + 1);
             b = channel data (index + 2)
         in scanRow data y (x + step)
              (if below248 r \<or> below248 g \<or> below248 b
               then validSpots @ [\<lparr>spot_x = x, spot_y = y\<rparr>]
               else validSpots))
      else validSpots)"
  by pat_completeness auto
termination
  by (relation "measure (\<lambda>(data, y, x, validSpots). 500 - x)") (auto simp: step_def)

declare scanRow.simps [simp del]

text \<open>The outer loop \<^verbatim>\<open>for (let y = step; y < 500 - step; y += step)\<close>, from row \<open>y\<close> on.\<close>

function scanRows :: "ImageData \<Rightarrow> nat \<Rightarrow> Spot list \<Rightarrow> Spot list" where
  "scanRows data y validSpots =
     (if y < 500 - step then scanRows data (y + step) (scanRow data y step validSpots)
      else validSpots)"
  by pat_completeness auto
termination
  by (relation "measure (\<lambda>(data, y, validSpots). 500 - y)") (auto simp: step_def)

definition sampleSpots :: "ImageData \<Rightarrow> Spot list" where
  "sampleSpots data = scanRows data step []"

declare scanRows.simps [simp del]


section \<open>Placing the notes\<close>

text \<open>
  A JavaScript number is a double: a real number that the binary64 format of IEEE 754
  holds. The product \<^verbatim>\<open>Math.random() * validSpots.length\<close> is the exact product rounded
  to the nearest double, ties to the even significand. \<open>toDouble\<close> is that rounding. For
  a number between \<open>2 ^ e\<close> and \<open>2 ^ (e + 1)\<close> the doubles are the multiples of
  \<open>2 ^ (e - 52)\<close>, and below \<open>2 ^ - 1022\<close> they are the multiples of \<open>2 ^ - 1074\<close>.
  Overflow to \<^verbatim>\<open>Infinity\<close> is left out: the product is below the length of an array,
  which is below \<open>2 ^ 32\<close>.
\<close>

definition binade :: "real \<Rightarrow> int" where
  "binade x = max (- 1022) \<lfloor>log 2 x\<rfloor>"

definition ulp :: "real \<Rightarrow> real" where
  "ulp x = 2 powr (real_of_int (binade x) - 52)"

definition tiesToEven :: "real \<Rightarrow> int" where
  "tiesToEven q =
     (let f = \<lfloor>q\<rfloor>
      in if q - of_int f < 1 / 2 then f
         else if 1 / 2 < q - of_int f then f + 1
         else if even f then f else f + 1)"

definition toDouble :: "real \<Rightarrow> real" where
  "toDouble x =
     (if x = 0 then 0
      else sgn x * (real_of_int (tiesToEven (\<bar>x\<bar> / ulp \<bar>x\<bar>)) * ulp \<bar>x\<bar>))"

text \<open>
  \<^verbatim>\<open>Math.random()\<close> is a hidden source of doubles in the interval from 0 (included) to 1
  (excluded). The model takes the source as a parameter: \<open>rnd k\<close> is the result of the
  \<open>k\<close>-th call, and the number of calls made so far is part of the state. The conversion
  of a number to text inside the template literal is the parameter \<open>str\<close>.
\<close>

definition unitInterval :: "(nat \<Rightarrow> real) \<Rightarrow> bool" where
  "unitInterval rnd = (\<forall>k. toDouble (rnd k) = rnd k \<and> 0 \<le> rnd k \<and> rnd k < 1)"

datatype js_error = TypeError

text \<open>The decimal digits of the index \<^verbatim>\<open>idx\<close>, as \<^verbatim>\<open>${idx}\<close> writes them.\<close>

definition digit :: "nat \<Rightarrow> char" where
  "digit d = char_of (48 + d)"

fun decimal :: "nat \<Rightarrow> string" where
  "decimal n = (if n < 10 then [digit n] else decimal (n div 10) @ [digit (n mod 10)])"

declare decimal.simps [simp del]

text \<open>\<^verbatim>\<open>validSpots.splice(spotIndex, 1)\<close> for an index inside the array.\<close>

definition splice1 :: "'a list \<Rightarrow> nat \<Rightarrow> 'a list" where
  "splice1 xs i = take i xs @ drop (Suc i) xs"

text \<open>
  The callback of \<^verbatim>\<open>melody.map\<close>, for the note \<open>note\<close> at position \<open>idx\<close>. The state is the
  array \<^verbatim>\<open>validSpots\<close> and the number \<open>k\<close> of calls of \<^verbatim>\<open>Math.random()\<close> so far;
  \<open>n\<close> is \<^verbatim>\<open>melody.length\<close>. An index outside the array reads \<^verbatim>\<open>undefined\<close>, and
  \<^verbatim>\<open>spot.x\<close> then throws a \<^verbatim>\<open>TypeError\<close>, which ends the whole \<^verbatim>\<open>map\<close>.
\<close>

definition placeNote ::
  "(nat \<Rightarrow> real) \<Rightarrow> (real \<Rightarrow> string) \<Rightarrow> nat \<Rightarrow> NoteData \<Rightarrow> nat \<Rightarrow> Spot list \<times> nat
     \<Rightarrow> js_error + PlacedNote \<times> (Spot list \<times> nat)" where
  "placeNote rnd str n note idx st =
     (let validSpots = fst st;
          k = snd st;
          spotIndex = \<lfloor>toDouble (rnd k * real (length validSpots))\<rfloor>;
          spot = (if 0 \<le> spotIndex \<and> spotIndex < int (length validSpots)
                  then Some (validSpots ! nat spotIndex) else None);
          validSpots' = (if length validSpots > n then splice1 validSpots (nat spotIndex)
                         else validSpots)
      in case spot of
           None \<Rightarrow> Inl TypeError
         | Some sp \<Rightarrow>
             Inr (\<lparr>note_value = note_value note, frequency = frequency note,
                    duration = duration note,
                    note_id = ''note-'' @ decimal idx @ ''-'' @ str (rnd (k + 1)),
                    note_x = spot_x sp, note_y = spot_y sp\<rparr>,
                  (validSpots', k + 2)))"

text \<open>\<^verbatim>\<open>melody.map\<close> over the notes that are left, the next one at position \<open>idx\<close>.\<close>

fun mapNotes ::
  "(nat \<Rightarrow> real) \<Rightarrow> (real \<Rightarrow> string) \<Rightarrow> nat \<Rightarrow> nat \<Rightarrow> NoteData list \<Rightarrow> Spot list \<times> nat
     \<Rightarrow> js_error + PlacedNote list \<times> (Spot list \<times> nat)" where
  "mapNotes rnd str n idx [] st = Inr ([], st)"
| "mapNotes rnd str n idx (note # rest) st =
     (case placeNote rnd str n note idx st of
        Inl e \<Rightarrow> Inl e
      | Inr (p, st') \<Rightarrow>
          (case mapNotes rnd str n (Suc idx) rest st' of
             Inl e \<Rightarrow> Inl e
           | Inr (ps, st'') \<Rightarrow> Inr (p # ps, st'')))"

definition placeNotes ::
  "(nat \<Rightarrow> real) \<Rightarrow> (real \<Rightarrow> string) \<Rightarrow> NoteData list \<Rightarrow> Spot list \<Rightarrow> js_error + PlacedNote list" where
  "placeNotes rnd str melody validSpots =
     (case mapNotes rnd str (length melody) 0 melody (validSpots, 0) of
        Inl e \<Rightarrow> Inl e
      | Inr (ps, st) \<Rightarrow> Inr ps)"

text \<open>The coordinate a placed note was given.\<close>

definition spotOf :: "PlacedNote \<Rightarrow> Spot" where
  "spotOf p = \<lparr>spot_x = note_x p, spot_y = note_y p\<rparr>"

section \<open>The state of the component\<close>

text \<open>
  The hooks of \<^verbatim>\<open>App\<close>: the values held by \<^verbatim>\<open>useState\<close> and the cell \<^verbatim>\<open>playbackRef\<close>.
  Two more fields record what the JavaScript runtime holds and the source does not name:
  the calls of \<^verbatim>\<open>togglePlayback\<close> that are suspended at
  \<^verbatim>\<open>await audioPlayer.playNote(...)\<close>, and the calls made to \<^verbatim>\<open>audioPlayer.playNote\<close>.

  A suspended call keeps the array \<^verbatim>\<open>placedNotes\<close> it closed over and its loop counter
  \<^verbatim>\<open>i\<close>; \<open>pass_id\<close> numbers the calls in the order they began to play.
\<close>

record Pass =
  pass_id :: nat
  pass_notes :: "PlacedNote list"
  pass_i :: nat

record App =
  isLoading :: bool
  imageSrc :: "string option"
  placedNotes :: "PlacedNote list"
  currentNoteIndex :: "nat option"
  isPlaying :: bool
  error :: "string option"
  playbackRef :: bool
  awaiting :: "Pass list"
  started :: nat
  tones :: "(nat \<times> nat \<times> real \<times> real \<times> string) list"

definition initialApp :: App where
  "initialApp =
     \<lparr>isLoading = False, imageSrc = None, placedNotes = [], currentNoteIndex = None,
      isPlaying = False, error = None, playbackRef = False,
      awaiting = [], started = 0, tones = []\<rparr>"

section \<open>One generation cycle\<close>

definition noShapeMessage :: string where
  "noShapeMessage = ''Could not trace the silk shape clearly. Please try a simpler object.''"

text \<open>
  The handler \<^verbatim>\<open>img.onload\<close> of \<^verbatim>\<open>processSilhouette\<close>. The argument \<open>ctx\<close> is
  \<open>None\<close> when \<^verbatim>\<open>canvas.getContext('2d')\<close> returns \<^verbatim>\<open>null\<close>, and otherwise holds the
  bytes that \<^verbatim>\<open>getImageData(0, 0, 500, 500)\<close> returns for the image drawn. An exception
  thrown inside the handler leaves the state as it was.
\<close>

definition onload ::
  "(nat \<Rightarrow> real) \<Rightarrow> (real \<Rightarrow> string) \<Rightarrow> ImageData option \<Rightarrow> NoteData list \<Rightarrow> App \<Rightarrow> App" where
  "onload rnd str ctx melody app =
     (case ctx of
        None \<Rightarrow> app
      | Some data \<Rightarrow>
          (let validSpots = sampleSpots data
           in if length validSpots = 0 then app\<lparr>error := Some noShapeMessage\<rparr>
              else (case placeNotes rnd str melody validSpots of
                      Inl e \<Rightarrow> app
                    | Inr newPlacedNotes \<Rightarrow> app\<lparr>placedNotes := newPlacedNotes\<rparr>)))"

text \<open>
  \<^verbatim>\<open>handleGenerate\<close>, up to the end of its \<^verbatim>\<open>finally\<close> block. The two services are outside
  the repository: \<open>ServicesFailed\<close> is a rejection of either promise, \<open>ServicesGave\<close>
  carries the image URL (\<open>None\<close> for \<^verbatim>\<open>null\<close>) and the melody.

  The prompt is a JavaScript string, a sequence of UTF-16 code units. \<^verbatim>\<open>trim()\<close> strips
  the white space and the line terminators of ECMAScript from both ends: tab, line feed,
  vertical tab, form feed, carriage return, space, no-break space, U+1680, U+2000 to
  U+200A, U+2028, U+2029, U+202F, U+205F, U+3000 and U+FEFF. \<^verbatim>\<open>!prompt.trim()\<close> holds
  when nothing else is in the prompt: the test \<open>blank\<close>.
\<close>

datatype Services = ServicesFailed | ServicesGave "string option" "NoteData list"

definition whiteSpace :: "16 word \<Rightarrow> bool" where
  "whiteSpace c =
     (c \<in> set [0x0009, 0x000A, 0x000B, 0x000C, 0x000D, 0x0020, 0x00A0, 0x1680,
                0x2000, 0x2001, 0x2002, 0x2003, 0x2004, 0x2005, 0x2006, 0x2007, 0x2008,
                0x2009, 0x200A, 0x2028, 0x2029, 0x202F, 0x205F, 0x3000, 0xFEFF])"

definition blank :: "16 word list \<Rightarrow> bool" where
  "blank prompt = (dropWhile whiteSpace prompt = [])"

definition truthy :: "string option \<Rightarrow> bool" where
  "truthy imgUrl = (case imgUrl of None \<Rightarrow> False | Some u \<Rightarrow> u \<noteq> [])"

definition handleGenerate :: "16 word list \<Rightarrow> Services \<Rightarrow> App \<Rightarrow> App" where
  "handleGenerate prompt services app =
     (if blank prompt then app
      else
        (let app1 = app\<lparr>isLoading := True, error := None, placedNotes := [],
                        currentNoteIndex := None, isPlaying := False, playbackRef := False\<rparr>;
             app2 = (case services of
                       ServicesFailed \<Rightarrow> app1\<lparr>error := Some ''An error occurred during generation.''\<rparr>
                     | ServicesGave imgUrl melody \<Rightarrow>
                         (if truthy imgUrl then app1\<lparr>imageSrc := imgUrl\<rparr>
                          else app1\<lparr>error := Some ''Failed to generate silk silhouette.''\<rparr>))
         in app2\<lparr>isLoading := False\<rparr>))"

text \<open>
  A whole cycle in which both services answer: \<^verbatim>\<open>handleGenerate\<close>, and then the
  \<^verbatim>\<open>onload\<close> handler that \<^verbatim>\<open>processSilhouette\<close> installed, if an image URL came back.
\<close>

definition generationCycle ::
  "(nat \<Rightarrow> real) \<Rightarrow> (real \<Rightarrow> string) \<Rightarrow> 16 word list \<Rightarrow> string option \<Rightarrow> NoteData list
     \<Rightarrow> ImageData option \<Rightarrow> App \<Rightarrow> App" where
  "generationCycle rnd str prompt imgUrl melody ctx app =
     (let app' = handleGenerate prompt (ServicesGave imgUrl melody) app
      in if \<not> blank prompt \<and> truthy imgUrl then onload rnd str ctx melody app' else app')"

section \<open>Playback\<close>

text \<open>The three statements after the loop of \<^verbatim>\<open>togglePlayback\<close>.\<close>

definition afterLoop :: "App \<Rightarrow> App" where
  "afterLoop app = app\<lparr>currentNoteIndex := None, isPlaying := False, playbackRef := False\<rparr>"

text \<open>
  The loop of \<^verbatim>\<open>togglePlayback\<close>, entered with counter \<open>i\<close> by the call numbered \<open>pid\<close>
  that closed over \<open>notes\<close>. It runs until the call is suspended at the \<^verbatim>\<open>await\<close>, or
  until the function returns.
\<close>

definition playFrom :: "nat \<Rightarrow> PlacedNote list \<Rightarrow> nat \<Rightarrow> App \<Rightarrow> App" where
  "playFrom pid notes i app =
     (if i < length notes then
        (if \<not> playbackRef app then afterLoop app
         else
           (let note = notes ! i
            in app\<lparr>currentNoteIndex := Some i,
                   tones := tones app @ [(pid, i, frequency note, duration note, note_value note)],
                   awaiting := awaiting app @ [\<lparr>pass_id = pid, pass_notes = notes, pass_i = i\<rparr>]\<rparr>))
      else afterLoop app)"

text \<open>A call of \<^verbatim>\<open>togglePlayback\<close>, up to its first \<^verbatim>\<open>await\<close> or its return.\<close>

definition togglePlayback :: "App \<Rightarrow> App" where
  "togglePlayback app =
     (if isPlaying app then app\<lparr>playbackRef := False, isPlaying := False\<rparr>
      else if length (placedNotes app) = 0 then app
      else playFrom (started app) (placedNotes app) 0
             (app\<lparr>isPlaying := True, playbackRef := True, started := Suc (started app)\<rparr>))"

text \<open>
  The promise awaited by the call numbered \<open>pid\<close> is settled. When it is fulfilled the
  loop goes on with \<^verbatim>\<open>i++\<close>. When it is rejected the \<^verbatim>\<open>await\<close> throws; \<^verbatim>\<open>togglePlayback\<close>
  has no handler, so the call ends there and the statements after the loop do not run.
\<close>

definition settle :: "nat \<Rightarrow> bool \<Rightarrow> App \<Rightarrow> App" where
  "settle pid fulfilled app =
     (case filter (\<lambda>p. pass_id p = pid) (awaiting app) of
        [] \<Rightarrow> app
      | p # _ \<Rightarrow>
          (let app' = app\<lparr>awaiting := filter (\<lambda>q. pass_id q \<noteq> pid) (awaiting app)\<rparr>
           in if fulfilled then playFrom pid (pass_notes p) (Suc (pass_i p)) app' else app'))"

text \<open>
  What can happen to the component during playback: a click on the button, and the end
  of a tone, well or badly. Each handler runs on the state the one before left.
\<close>

datatype Event = Click | Finished nat | Failed nat

fun fire :: "App \<Rightarrow> Event \<Rightarrow> App" where
  "fire app Click = togglePlayback app"
| "fire app (Finished pid) = settle pid True app"
| "fire app (Failed pid) = settle pid False app"

definition run :: "App \<Rightarrow> Event list \<Rightarrow> App" where
  "run app events = foldl fire app events"

section \<open>Notions used in the statements\<close>

text \<open>
  The columns (and rows) the two loops visit from \<open>x\<close> on: \<open>x\<close>, \<open>x + step\<close>, and so on
  below \<open>500 - step\<close>.
\<close>

function gridFrom :: "nat \<Rightarrow> nat list" where
  "gridFrom x = (if x < 500 - step then x # gridFrom (x + step) else [])"
  by pat_completeness auto
termination
  by (relation "measure (\<lambda>x. 500 - x)") (auto simp: step_def)

declare gridFrom.simps [simp del]

text \<open>
  The test of the sampling loop on the pixel in column \<open>x\<close> of row \<open>y\<close> of an image of
  500 by 500 pixels: one of its red, green and blue bytes is below 248.
\<close>

definition dark :: "ImageData \<Rightarrow> nat \<Rightarrow> nat \<Rightarrow> bool" where
  "dark data x y =
     (let index = (y * 500 + x) * 4
      in data ! index < 248 \<or> data ! (index + 1) < 248 \<or> data ! (index + 2) < 248)"

text \<open>The same test as the loop makes it, through \<open>channel\<close>, and the spots of one row.\<close>

definition lit :: "ImageData \<Rightarrow> nat \<Rightarrow> nat \<Rightarrow> bool" where
  "lit data y x =
     (below248 (channel data ((y * 500 + x) * 4)) \<or> below248 (channel data ((y * 500 + x) * 4 + 1))
      \<or> below248 (channel data ((y * 500 + x) * 4 + 2)))"

definition rowSpots :: "ImageData \<Rightarrow> nat \<Rightarrow> nat \<Rightarrow> Spot list" where
  "rowSpots data y x = map (\<lambda>x'. \<lparr>spot_x = x', spot_y = y\<rparr>) (filter (lit data y) (gridFrom x))"

text \<open>Row-major order: by row first, by column inside a row.\<close>

definition rowMajor :: "Spot \<Rightarrow> Spot \<Rightarrow> bool" where
  "rowMajor p q = (spot_y p < spot_y q \<or> (spot_y p = spot_y q \<and> spot_x p < spot_x q))"

text \<open>The index \<^verbatim>\<open>Math.floor(Math.random() * m)\<close> of the \<open>k\<close>-th call, as a natural number.\<close>

definition drawn :: "(nat \<Rightarrow> real) \<Rightarrow> nat \<Rightarrow> nat \<Rightarrow> nat" where
  "drawn rnd k m = nat \<lfloor>toDouble (rnd k * real m)\<rfloor>"

section \<open>Example inputs\<close>

text \<open>An image that is white everywhere, and one with a single dark green byte.\<close>

definition whiteImage :: ImageData where
  "whiteImage = replicate 1000000 255"

definition oneDot :: ImageData where
  "oneDot = whiteImage[(30 * 500 + 45) * 4 + 1 := 17]"

text \<open>A melody of five notes, its first three notes, and candidate spots.\<close>

definition fiveNotes :: "NoteData list" where
  "fiveNotes =
     [\<lparr>note_value = ''C'', frequency = 262, duration = 1 / 2\<rparr>,
      \<lparr>note_value = ''E'', frequency = 330, duration = 1 / 2\<rparr>,
      \<lparr>note_value = ''G'', frequency = 392, duration = 1\<rparr>,
      \<lparr>note_value = ''E'', frequency = 330, duration = 1 / 4\<rparr>,
      \<lparr>note_value = ''C'', frequency = 262, duration = 1\<rparr>]"

definition threeNotes :: "NoteData list" where
  "threeNotes = take 3 fiveNotes"

definition fiveSpots :: "Spot list" where
  "fiveSpots =
     [\<lparr>spot_x = 15, spot_y = 15\<rparr>, \<lparr>spot_x = 30, spot_y = 15\<rparr>, \<lparr>spot_x = 15, spot_y = 30\<rparr>,
      \<lparr>spot_x = 30, spot_y = 30\<rparr>, \<lparr>spot_x = 45, spot_y = 30\<rparr>]"

definition threeSpots :: "Spot list" where
  "threeSpots = take 3 fiveSpots"

text \<open>The prompt \<^verbatim>\<open>a bird\<close>, in UTF-16 code units.\<close>

definition birdPrompt :: "16 word list" where
  "birdPrompt = [0x61, 0x20, 0x62, 0x69, 0x72, 0x64]"

text \<open>Six spots of one row, for a draw that the rounding moves.\<close>

definition sixSpots :: "Spot list" where
  "sixSpots =
     [\<lparr>spot_x = 15, spot_y = 15\<rparr>, \<lparr>spot_x = 30, spot_y = 15\<rparr>, \<lparr>spot_x = 45, spot_y = 15\<rparr>,
      \<lparr>spot_x = 60, spot_y = 15\<rparr>, \<lparr>spot_x = 75, spot_y = 15\<rparr>, \<lparr>spot_x = 90, spot_y = 15\<rparr>]"

text \<open>
  One run of \<^verbatim>\<open>Math.random()\<close>: the doubles its first ten calls give, each with the text
  JavaScript writes for it. Later calls give 0.5.
\<close>

definition draws :: "(real \<times> string) list" where
  "draws =
     [(7 / 16, ''0.4375''), (13 / 16, ''0.8125''), (5 / 8, ''0.625''), (3 / 16, ''0.1875''),
      (3 / 8, ''0.375''), (9 / 16, ''0.5625''), (11 / 16, ''0.6875''), (1 / 8, ''0.125''),
      (1 / 16, ''0.0625''), (15 / 16, ''0.9375'')]"

definition someDraws :: "nat \<Rightarrow> real" where
  "someDraws k = (if k < length draws then fst (draws ! k) else 1 / 2)"

text \<open>
  A run that gives the double next to five sixths at every call; JavaScript writes it
  \<^verbatim>\<open>0.8333333333333333\<close>.
\<close>

definition fiveSixths :: "nat \<Rightarrow> real" where
  "fiveSixths k = 3752999689475413 / 4503599627370496"

definition textOf :: "real \<Rightarrow> string" where
  "textOf r =
     (case map_of (draws @ [(3752999689475413 / 4503599627370496, ''0.8333333333333333'')]) r of
        Some t \<Rightarrow> t
      | None \<Rightarrow> ''0.5'')"

text \<open>
  The three notes as that run places them on a single spot, and a component that shows
  them.
\<close>

definition placedOnOneSpot :: "PlacedNote list" where
  "placedOnOneSpot =
     [\<lparr>note_value = ''C'', frequency = 262, duration = 1 / 2,
       note_id = ''note-0-0.8125'', note_x = 15, note_y = 15\<rparr>,
      \<lparr>note_value = ''E'', frequency = 330, duration = 1 / 2,
       note_id = ''note-1-0.1875'', note_x = 15, note_y = 15\<rparr>,
      \<lparr>note_value = ''G'', frequency = 392, duration = 1,
       note_id = ''note-2-0.5625'', note_x = 15, note_y = 15\<rparr>]"

definition readyApp :: App where
  "readyApp = initialApp\<lparr>imageSrc := Some ''data:image/png;base64,AAAA'', placedNotes := placedOnOneSpot\<rparr>"


section \<open>The sampling loops\<close>

lemma set_gridFrom: "set (gridFrom x) = {x'. x \<le> x' \<and> x' < 500 - step \<and> step dvd (x' - x)}"
proof (induction x rule: gridFrom.induct)
  case (1 x)
  show ?case
  proof (cases "x < 500 - step")
    case True
    have "set (gridFrom x) = insert x (set (gridFrom (x + step)))"
      using True by (subst gridFrom.simps) simp
    also have "\<dots> = insert x {x'. x + step \<le> x' \<and> x' < 500 - step \<and> step dvd (x' - (x + step))}"
      using 1 True by simp
    also have "\<dots> = {x'. x \<le> x' \<and> x' < 500 - step \<and> step dvd (x' - x)}"
    proof (rule set_eqI)
      fix z
      have "15 dvd (z - x) \<longleftrightarrow> z = x \<or> (x + 15 \<le> z \<and> 15 dvd (z - (x + 15)))" if "x \<le> z"
        using that by presburger
      then show "z \<in> insert x {x'. x + step \<le> x' \<and> x' < 500 - step \<and> step dvd (x' - (x + step))}
          \<longleftrightarrow> z \<in> {x'. x \<le> x' \<and> x' < 500 - step \<and> step dvd (x' - x)}"
        using True by (auto simp: step_def)
    qed
    finally show ?thesis .
  next
    case False
    then show ?thesis by (subst gridFrom.simps) auto
  qed
qed

lemma sorted_gridFrom: "sorted_wrt (<) (gridFrom x)"
proof (induction x rule: gridFrom.induct)
  case (1 x)
  show ?case
  proof (cases "x < 500 - step")
    case True
    then have "gridFrom x = x # gridFrom (x + step)"
      by (subst gridFrom.simps) simp
    moreover have "\<forall>z \<in> set (gridFrom (x + step)). x < z"
      by (auto simp: set_gridFrom step_def)
    ultimately show ?thesis using 1 True by simp
  next
    case False
    then show ?thesis by (subst gridFrom.simps) simp
  qed
qed

lemma scanRow_rowSpots: "scanRow data y x acc = acc @ rowSpots data y x"
proof (induction data y x acc rule: scanRow.induct)
  case (1 data y x acc)
  show ?case
  proof (cases "x < 500 - step")
    case True
    then have g: "gridFrom x = x # gridFrom (x + step)"
      by (subst gridFrom.simps) simp
    show ?thesis
      using True 1 by (subst scanRow.simps) (simp add: rowSpots_def g lit_def Let_def)
  next
    case False
    then have "gridFrom x = []" by (subst gridFrom.simps) simp
    then show ?thesis using False by (subst scanRow.simps) (simp add: rowSpots_def)
  qed
qed

lemma scanRows_rows:
  "scanRows data y acc = acc @ concat (map (\<lambda>y'. rowSpots data y' step) (gridFrom y))"
proof (induction data y acc rule: scanRows.induct)
  case (1 data y acc)
  show ?case
  proof (cases "y < 500 - step")
    case True
    then have g: "gridFrom y = y # gridFrom (y + step)"
      by (subst gridFrom.simps) simp
    show ?thesis
      using True 1 by (subst scanRows.simps) (simp add: g scanRow_rowSpots)
  next
    case False
    then have "gridFrom y = []" by (subst gridFrom.simps) simp
    then show ?thesis using False by (subst scanRows.simps) simp
  qed
qed

lemma sampleSpots_rows:
  "sampleSpots data = concat (map (\<lambda>y. rowSpots data y step) (gridFrom step))"
  by (simp add: sampleSpots_def scanRows_rows)

lemma set_rowSpots:
  "set (rowSpots data y x) = {\<lparr>spot_x = x', spot_y = y\<rparr> | x'. x' \<in> set (gridFrom x) \<and> lit data y x'}"
  by (auto simp: rowSpots_def)

lemma sorted_rowSpots: "sorted_wrt rowMajor (rowSpots data y x)"
proof -
  have "sorted_wrt (<) (filter (lit data y) (gridFrom x))"
    by (rule sorted_wrt_filter) (rule sorted_gridFrom)
  then have "sorted_wrt (\<lambda>a b. rowMajor \<lparr>spot_x = a, spot_y = y\<rparr> \<lparr>spot_x = b, spot_y = y\<rparr>)
               (filter (lit data y) (gridFrom x))"
    by (simp add: rowMajor_def)
  then show ?thesis
    by (simp add: rowSpots_def sorted_wrt_map)
qed

lemma sorted_rows:
  "sorted_wrt (<) ys \<Longrightarrow> sorted_wrt rowMajor (concat (map (\<lambda>y. rowSpots data y x) ys))"
proof (induction ys)
  case Nil
  then show ?case by simp
next
  case (Cons y ys)
  have "rowMajor p q"
    if "p \<in> set (rowSpots data y x)" and "q \<in> set (concat (map (\<lambda>y. rowSpots data y x) ys))" for p q
  proof -
    from that(1) have "spot_y p = y" by (auto simp: set_rowSpots)
    moreover from that(2) obtain y' where "y' \<in> set ys" "spot_y q = y'"
      by (auto simp: set_rowSpots)
    moreover have "y < y'" using Cons.prems \<open>y' \<in> set ys\<close> by simp
    ultimately show ?thesis by (simp add: rowMajor_def)
  qed
  with Cons show ?case
    by (simp add: sorted_wrt_append sorted_rowSpots)
qed

lemma lit_dark:
  assumes "length data = 500 * 500 * 4" and "x < 500" and "y < 500"
  shows "lit data y x = dark data x y"
proof -
  have "y * 500 + x \<le> 499 * 500 + 499"
    using assms(2,3) by (intro add_mono mult_le_mono) simp_all
  then have "(y * 500 + x) * 4 + 2 < length data"
    using assms(1) by simp
  then show ?thesis
    by (simp add: lit_def dark_def channel_def below248_def Let_def)
qed

lemma onGrid: "z \<in> set (gridFrom step) \<longleftrightarrow> step \<le> z \<and> z < 500 - step \<and> step dvd z"
proof -
  have "15 dvd (z - 15) \<longleftrightarrow> 15 dvd z" if "15 \<le> z"
    using that by presburger
  then show ?thesis
    by (auto simp: set_gridFrom step_def)
qed

text \<open>
  C4. For an image of 500 by 500 pixels, the spots sampled are exactly the points
  \<open>(x, y)\<close> of the grid of step 15 with \<open>15 \<le> x < 485\<close> and \<open>15 \<le> y < 485\<close> whose
  pixel has a red, green or blue byte below 248; they come in row-major order, rows outside
  and columns inside, so the list has no repetition and is fixed by the image.
\<close>

theorem sampleSpots_exact:
  assumes "length data = 500 * 500 * 4"
  shows "set (sampleSpots data) =
           {\<lparr>spot_x = x, spot_y = y\<rparr> | x y.
              step \<le> x \<and> x < 500 - step \<and> step dvd x \<and>
              step \<le> y \<and> y < 500 - step \<and> step dvd y \<and> dark data x y}
         \<and> sorted_wrt rowMajor (sampleSpots data)"
proof
  have "lit data y x = dark data x y" if "x < 500 - step" "y < 500 - step" for x y
    using that assms by (intro lit_dark) (simp_all add: step_def)
  then show "set (sampleSpots data) =
           {\<lparr>spot_x = x, spot_y = y\<rparr> | x y.
              step \<le> x \<and> x < 500 - step \<and> step dvd x \<and>
              step \<le> y \<and> y < 500 - step \<and> step dvd y \<and> dark data x y}"
    unfolding sampleSpots_rows by (auto simp: set_rowSpots onGrid)
  show "sorted_wrt rowMajor (sampleSpots data)"
    unfolding sampleSpots_rows by (rule sorted_rows) (rule sorted_gridFrom)
qed

text \<open>The image with one dark pixel, in column 45 of row 30, gives that one spot.\<close>

theorem sampleSpots_exact_witness:
  "length oneDot = 500 * 500 * 4 \<and> set (sampleSpots oneDot) = {\<lparr>spot_x = 45, spot_y = 30\<rparr>}"
proof -
  have len: "length oneDot = 500 * 500 * 4"
    by (simp add: oneDot_def whiteImage_def)
  have d: "dark oneDot x y \<longleftrightarrow> y * 500 + x = 15045" if "x < 500" "y < 500" for x y
  proof -
    have "y * 500 + x \<le> 499 * 500 + 499"
      using that by (intro add_mono mult_le_mono) simp_all
    then have "(y * 500 + x) * 4 + 2 < 1000000" by simp
    then show ?thesis
      by (auto simp: dark_def oneDot_def whiteImage_def Let_def nth_list_update)
  qed
  have "set (sampleSpots oneDot) =
           {\<lparr>spot_x = x, spot_y = y\<rparr> | x y.
              step \<le> x \<and> x < 500 - step \<and> step dvd x \<and>
              step \<le> y \<and> y < 500 - step \<and> step dvd y \<and> dark oneDot x y}"
    using sampleSpots_exact [OF len] by simp
  also have "\<dots> = {\<lparr>spot_x = 45, spot_y = 30\<rparr>}"
  proof -
    have "x = 45 \<and> y = 30" if "x < 485" "y * 500 + x = 15045" for x y :: nat
    proof -
      have "29 < y" "y < 31" using that by linarith+
      then have "y = 30" by simp
      with that show ?thesis by simp
    qed
    then have "(step \<le> x \<and> x < 500 - step \<and> step dvd x \<and>
              step \<le> y \<and> y < 500 - step \<and> step dvd y \<and> dark oneDot x y) \<longleftrightarrow> (x = 45 \<and> y = 30)" for x y
      using d [of x y] by (auto simp: step_def)
    then show ?thesis by simp
  qed
  finally show ?thesis using len by simp
qed

lemma sampleSpots_white: "sampleSpots whiteImage = []"
proof -
  have "\<not> lit whiteImage y x" for x y
    by (simp add: lit_def channel_def below248_def whiteImage_def)
  then show ?thesis
    by (simp add: sampleSpots_rows rowSpots_def)
qed

section \<open>The placement\<close>

text \<open>Rounding to a double: the result is within half a unit in the last place.\<close>

lemma tiesToEven_of_int: "tiesToEven (of_int z) = z"
  by (simp add: tiesToEven_def)

lemma tiesToEven_near: "\<bar>real_of_int (tiesToEven q) - q\<bar> \<le> 1 / 2"
proof -
  have "of_int \<lfloor>q\<rfloor> \<le> q" and "q < of_int \<lfloor>q\<rfloor> + 1" by linarith+
  then show ?thesis
    by (auto simp: tiesToEven_def Let_def)
qed

lemma tiesToEven_nonneg: "0 \<le> q \<Longrightarrow> 0 \<le> tiesToEven q"
proof -
  assume "0 \<le> q"
  then have "0 \<le> \<lfloor>q\<rfloor>" by simp
  then show ?thesis by (auto simp: tiesToEven_def Let_def)
qed

lemma ulp_pos: "0 < ulp x"
  by (simp add: ulp_def)

lemma binade_eq:
  assumes "0 < x" and "2 powr real_of_int e \<le> x" and "x < 2 powr (real_of_int e + 1)"
    and "- 1022 \<le> e"
  shows "binade x = e"
proof -
  have "\<lfloor>log 2 x\<rfloor> = e"
    using assms(1-3) by (simp add: floor_log_eq_powr_iff)
  then show ?thesis using assms(4) by (simp add: binade_def)
qed

lemma ulp_le:
  assumes "0 < x"
  shows "ulp x \<le> max (x * 2 powr (- 52)) (2 powr (- 1074))"
proof (cases "- 1022 \<le> \<lfloor>log 2 x\<rfloor>")
  case True
  then have "binade x = \<lfloor>log 2 x\<rfloor>" by (simp add: binade_def)
  then have "ulp x = 2 powr (real_of_int \<lfloor>log 2 x\<rfloor> - 52)" by (simp add: ulp_def)
  also have "\<dots> \<le> 2 powr (log 2 x - 52)"
    by (intro powr_mono) simp_all
  also have "\<dots> = 2 powr (log 2 x + (- 52))" by simp
  also have "\<dots> = 2 powr log 2 x * 2 powr (- 52)" by (rule powr_add)
  also have "\<dots> = x * 2 powr (- 52)" using assms by simp
  finally have "ulp x \<le> x * 2 powr (- 52)" .
  then show ?thesis by (rule max.coboundedI1)
next
  case False
  then have "binade x = - 1022" by (simp add: binade_def)
  then have "ulp x = 2 powr (- 1074)" by (simp add: ulp_def)
  then have "ulp x \<le> 2 powr (- 1074)" by (simp only:)
  then show ?thesis by (rule max.coboundedI2)
qed

lemma toDouble_nonneg: "0 \<le> x \<Longrightarrow> 0 \<le> toDouble x"
proof -
  assume x: "0 \<le> x"
  have "0 \<le> \<bar>x\<bar> / ulp \<bar>x\<bar>" using ulp_pos [of "\<bar>x\<bar>"] by simp
  then have "0 \<le> tiesToEven (\<bar>x\<bar> / ulp \<bar>x\<bar>)" by (rule tiesToEven_nonneg)
  then show ?thesis
    using x ulp_pos [of "\<bar>x\<bar>"] by (simp add: toDouble_def sgn_real_def)
qed

lemma toDouble_near:
  assumes "0 < x"
  shows "toDouble x \<le> x + ulp x / 2"
proof -
  let ?u = "ulp x"
  have u: "0 < ?u" by (rule ulp_pos)
  have "real_of_int (tiesToEven (x / ?u)) \<le> x / ?u + 1 / 2"
    using tiesToEven_near [of "x / ?u"] by linarith
  then have "real_of_int (tiesToEven (x / ?u)) * ?u \<le> (x / ?u + 1 / 2) * ?u"
    using u by (intro mult_right_mono) simp_all
  also have "\<dots> = x + ?u / 2"
    using u by (simp add: field_simps)
  finally show ?thesis
    using assms by (simp add: toDouble_def)
qed

text \<open>
  A double below 1 is at most \<open>1 - 2 ^ - 53\<close>, and so the rounded product of such a double
  with a length stays below the length.
\<close>

lemma half_ulp_of_one: "2 powr (- 53) \<le> (1 / 2 :: real)"
proof -
  have "(2::real) powr (- 53) \<le> 2 powr (- 1)" by (intro powr_mono) simp_all
  then show ?thesis by simp
qed

lemma below_one:
  assumes "toDouble r = r" and "0 \<le> r" and "r < 1"
  shows "r \<le> 1 - 2 powr (- 53)"
proof (cases "r < 1 / 2")
  case True
  then show ?thesis using half_ulp_of_one by linarith
next
  case False
  then have pos: "0 < r" by simp
  have "binade r = - 1"
    using pos False assms(3) by (intro binade_eq) simp_all
  then have u: "ulp r = 2 powr (- 53)" by (simp add: ulp_def)
  define N where "N = tiesToEven (r / ulp r)"
  define U :: real where "U = 2 powr (- 53)"
  have r: "r = real_of_int N * U"
    using assms(1) pos u by (simp add: toDouble_def N_def U_def)
  have U: "0 < U" by (simp add: U_def)
  have p: "9007199254740992 * U = 1"
    by (simp add: U_def powr_neg_numeral)
  have "real_of_int N * U < 9007199254740992 * U"
    using assms(3) r p by simp
  then have "real_of_int N < 9007199254740992"
    using U by (simp only: mult_less_cancel_right_pos)
  then have "N < 9007199254740992" by simp
  then have "N \<le> 9007199254740991" by simp
  then have "real_of_int N \<le> 9007199254740991" by simp
  then have "real_of_int N * U \<le> 9007199254740991 * U"
    using U by (intro mult_right_mono) simp_all
  also have "\<dots> = 1 - U" using p by linarith
  finally show ?thesis using r by (simp add: U_def)
qed

lemma draw_in_range:
  assumes "toDouble r = r" and "0 \<le> r" and "r < 1" and "0 < m"
  shows "0 \<le> \<lfloor>toDouble (r * real m)\<rfloor> \<and> \<lfloor>toDouble (r * real m)\<rfloor> < int m"
proof
  let ?x = "r * real m"
  let ?U = "(2::real) powr (- 53)"
  have x0: "0 \<le> ?x" using assms(2) by simp
  then have "0 \<le> toDouble ?x" by (rule toDouble_nonneg)
  then show "0 \<le> \<lfloor>toDouble ?x\<rfloor>" by simp
  have U: "0 < ?U" by simp
  have m: "1 \<le> real m" using assms(4) by simp
  have "r \<le> 1 - ?U" using assms(1-3) by (rule below_one)
  then have xm: "?x \<le> (1 - ?U) * real m"
    by (intro mult_right_mono) simp_all
  have "toDouble ?x < real m"
  proof (cases "?x = 0")
    case True
    then show ?thesis using assms(4) by (simp add: toDouble_def)
  next
    case False
    have pos: "0 < ?x" by (metis False x0 order_le_less)
    have near: "toDouble ?x \<le> ?x + ulp ?x / 2" using pos by (rule toDouble_near)
    have "ulp ?x \<le> max (?x * 2 powr (- 52)) (2 powr (- 1074))" using pos by (rule ulp_le)
    then consider "ulp ?x \<le> ?x * 2 powr (- 52)" | "ulp ?x \<le> 2 powr (- 1074)"
      by (auto simp: max_def split: if_splits)
    then show ?thesis
    proof cases
      case 1
      have "(2::real) powr (- 52) = 2 * ?U"
        by (simp add: powr_neg_numeral)
      then have "ulp ?x / 2 \<le> ?x * ?U" using 1 by simp
      then have "toDouble ?x \<le> ?x * (1 + ?U)" using near by (simp add: algebra_simps)
      also have "\<dots> \<le> ((1 - ?U) * real m) * (1 + ?U)"
        by (rule mult_right_mono [OF xm]) (use U in simp)
      also have "\<dots> = real m - ?U * ?U * real m" by (simp add: algebra_simps)
      also have "\<dots> < real m" using U m by simp
      finally show ?thesis .
    next
      case 2
      have small: "(2::real) powr (- 1074) / 2 < ?U"
      proof -
        have "(2::real) powr (- 1074) < 2 powr (- 53)" by (intro powr_less_mono) simp_all
        moreover have "(0::real) < 2 powr (- 1074)" by simp
        ultimately show ?thesis by linarith
      qed
      have "?U * 1 \<le> ?U * real m" using U m by (intro mult_left_mono) simp_all
      then have "?U \<le> ?U * real m" by simp
      then have "toDouble ?x < ?x + ?U * real m" using near 2 small by linarith
      also have "\<dots> \<le> (1 - ?U) * real m + ?U * real m" using xm by simp
      also have "\<dots> = real m" by (simp add: algebra_simps)
      finally show ?thesis .
    qed
  qed
  then show "\<lfloor>toDouble ?x\<rfloor> < int m" by (simp add: floor_less_iff)
qed

text \<open>Numbers with a short binary expansion are doubles; and a product that is a tie.\<close>

lemma toDouble_dyadic:
  fixes z :: int and j :: nat
  assumes "0 < z" and "z < 2 ^ 53" and "j \<le> 1074"
  shows "toDouble (real_of_int z / 2 ^ j) = real_of_int z / 2 ^ j"
proof -
  define x where "x = real_of_int z / 2 ^ j"
  define b where "b = binade x"
  have pos: "0 < x" using assms(1) by (simp add: x_def)
  have xj: "x = real_of_int z * 2 powr (- real j)"
    by (simp add: x_def powr_minus powr_realpow divide_inverse)
  have "real_of_int z < 2 ^ 53" using assms(2) by (metis of_int_less_iff of_int_numeral of_int_power)
  then have "real_of_int z < 2 powr 53" by simp
  then have "x < 2 powr 53 * 2 powr (- real j)"
    unfolding xj by (intro mult_strict_right_mono) simp_all
  also have "\<dots> = 2 powr (53 + (- real j))" by (rule powr_add [symmetric])
  also have "53 + (- real j) = 53 - real j" by simp
  finally have up: "x < 2 powr (53 - real j)" .
  have "2 powr (real_of_int \<lfloor>log 2 x\<rfloor>) \<le> 2 powr (log 2 x)"
    by (intro powr_mono) simp_all
  also have "\<dots> = x" using pos by simp
  finally have "2 powr (real_of_int \<lfloor>log 2 x\<rfloor>) \<le> x" .
  then have "2 powr (real_of_int \<lfloor>log 2 x\<rfloor>) < 2 powr (53 - real j)" using up by (rule le_less_trans)
  then have "real_of_int \<lfloor>log 2 x\<rfloor> < 53 - real j" by (rule powr_less_cancel) simp
  then have "\<lfloor>log 2 x\<rfloor> < 53 - int j" by linarith
  then have b: "b \<le> 52 - int j" using assms(3) by (simp add: b_def binade_def)
  define t where "t = nat (52 - int j - b)"
  have t: "real t = 52 - real j - real_of_int b" using b by (simp add: t_def)
  have u: "ulp x = 2 powr (real_of_int b - 52)" by (simp add: ulp_def b_def)
  have "x / ulp x = x / 2 powr (real_of_int b - 52)"
    by (simp only: u)
  also have "\<dots> = real_of_int z * (2 powr (- real j) / 2 powr (real_of_int b - 52))"
    by (subst xj) simp
  also have "2 powr (- real j) / 2 powr (real_of_int b - 52) = 2 powr (- real j - (real_of_int b - 52))"
    by (rule powr_diff [symmetric])
  also have "- real j - (real_of_int b - 52) = real t" using t by simp
  also have "(2::real) powr real t = 2 ^ t" by (simp add: powr_realpow)
  finally have q: "x / ulp x = real_of_int (z * 2 ^ t)" by simp
  have "toDouble x = real_of_int (z * 2 ^ t) * ulp x"
    using pos by (simp add: toDouble_def q tiesToEven_of_int del: of_int_mult of_int_power)
  also have "\<dots> = x / ulp x * ulp x" by (simp only: q)
  also have "\<dots> = x" using ulp_pos [of x] by simp
  finally show ?thesis by (simp add: x_def)
qed

lemma toDouble_eval:
  assumes "0 < x" and "binade x = e" and "x / 2 powr (real_of_int e - 52) = q"
    and "tiesToEven q = n"
  shows "toDouble x = real_of_int n * 2 powr (real_of_int e - 52)"
proof -
  have "ulp x = 2 powr (real_of_int e - 52)" using assms(2) by (simp add: ulp_def)
  moreover have "toDouble x = real_of_int (tiesToEven (x / ulp x)) * ulp x"
    using assms(1) by (simp add: toDouble_def)
  ultimately show ?thesis using assms(3,4) by simp
qed

lemma tie_rounds_to_five: "toDouble (11258999068426239 / 2251799813685248) = 5"
proof -
  let ?x = "11258999068426239 / 2251799813685248 :: real"
  have b: "binade ?x = 2"
    by (intro binade_eq) simp_all
  have q: "?x / 2 powr (real_of_int 2 - 52) = 11258999068426239 / 2"
    by (simp add: powr_neg_numeral)
  have n: "tiesToEven (11258999068426239 / 2) = 5629499534213120"
    by (simp add: tiesToEven_def Let_def)
  have "toDouble ?x = real_of_int 5629499534213120 * 2 powr (real_of_int 2 - 52)"
    by (rule toDouble_eval [OF _ b q n]) simp
  also have "\<dots> = 5" by (simp add: powr_neg_numeral)
  finally show ?thesis .
qed


lemma length_splice1: "i < length xs \<Longrightarrow> length (splice1 xs i) = length xs - 1"
  by (simp add: splice1_def)

lemma set_splice1: "set (splice1 xs i) \<subseteq> set xs"
  by (auto simp: splice1_def dest: in_set_takeD in_set_dropD)

lemma distinct_splice1:
  assumes "distinct xs" and "i < length xs"
  shows "distinct (splice1 xs i) \<and> xs ! i \<notin> set (splice1 xs i)"
proof -
  have "distinct (take i xs @ xs ! i # drop (Suc i) xs)"
    using assms by (simp add: id_take_nth_drop [symmetric])
  then show ?thesis by (auto simp: splice1_def)
qed

lemma drawn_less:
  assumes "unitInterval rnd" and "0 < m"
  shows "drawn rnd k m < m"
proof -
  have "0 \<le> \<lfloor>toDouble (rnd k * real m)\<rfloor> \<and> \<lfloor>toDouble (rnd k * real m)\<rfloor> < int m"
    using assms by (intro draw_in_range) (simp_all add: unitInterval_def)
  then show ?thesis unfolding drawn_def by linarith
qed

lemma placeNote_Inr:
  assumes "unitInterval rnd" and "spots \<noteq> []"
  shows "placeNote rnd str n note idx (spots, k) =
           Inr (\<lparr>note_value = note_value note, frequency = frequency note, duration = duration note,
                  note_id = ''note-'' @ decimal idx @ ''-'' @ str (rnd (k + 1)),
                  note_x = spot_x (spots ! drawn rnd k (length spots)),
                  note_y = spot_y (spots ! drawn rnd k (length spots))\<rparr>,
                (if length spots > n then splice1 spots (drawn rnd k (length spots)) else spots, k + 2))"
proof -
  have "0 < length spots" using assms(2) by simp
  then have "0 \<le> \<lfloor>toDouble (rnd k * real (length spots))\<rfloor>
             \<and> \<lfloor>toDouble (rnd k * real (length spots))\<rfloor> < int (length spots)"
    using assms(1) by (intro draw_in_range) (simp_all add: unitInterval_def)
  then show ?thesis
    by (simp add: placeNote_def drawn_def Let_def del: zero_le_floor)
qed

lemma placeNote_InrD:
  assumes "placeNote rnd str n note idx (spots, k) = Inr (p, st')"
  shows "drawn rnd k (length spots) < length spots
         \<and> p = \<lparr>note_value = note_value note, frequency = frequency note, duration = duration note,
                  note_id = ''note-'' @ decimal idx @ ''-'' @ str (rnd (k + 1)),
                  note_x = spot_x (spots ! drawn rnd k (length spots)),
                  note_y = spot_y (spots ! drawn rnd k (length spots))\<rparr>
         \<and> st' = (if length spots > n then splice1 spots (drawn rnd k (length spots)) else spots, k + 2)"
proof -
  let ?i = "\<lfloor>toDouble (rnd k * real (length spots))\<rfloor>"
  have inside: "0 \<le> ?i \<and> ?i < int (length spots)"
    using assms by (auto simp: placeNote_def Let_def split: if_splits simp del: zero_le_floor)
  then have "nat ?i < length spots" by linarith
  moreover have "p = \<lparr>note_value = note_value note, frequency = frequency note, duration = duration note,
                  note_id = ''note-'' @ decimal idx @ ''-'' @ str (rnd (k + 1)),
                  note_x = spot_x (spots ! nat ?i), note_y = spot_y (spots ! nat ?i)\<rparr>
         \<and> st' = (if length spots > n then splice1 spots (nat ?i) else spots, k + 2)"
    using assms inside by (simp add: placeNote_def Let_def del: zero_le_floor)
  ultimately show ?thesis by (simp add: drawn_def)
qed

lemma mapNotes_Cons_InrD:
  assumes "mapNotes rnd str n idx (note # rest) st = Inr (ps, st'')"
  obtains p st' qs where "placeNote rnd str n note idx st = Inr (p, st')"
    and "mapNotes rnd str n (Suc idx) rest st' = Inr (qs, st'')" and "ps = p # qs"
  using assms by (auto split: sum.splits prod.splits)


lemma mapNotes_total:
  assumes "unitInterval rnd" and "spots \<noteq> []" and "ns = [] \<or> 0 < n"
  shows "\<exists>ps spots'. mapNotes rnd str n idx ns (spots, k) = Inr (ps, (spots', k + 2 * length ns))
           \<and> spots' \<noteq> []"
  using assms(2,3)
proof (induction ns arbitrary: idx spots k)
  case Nil
  then show ?case by simp
next
  case (Cons a rest)
  let ?i = "drawn rnd k (length spots)"
  let ?spots1 = "if length spots > n then splice1 spots ?i else spots"
  have i: "?i < length spots"
    using assms(1) Cons.prems(1) by (intro drawn_less) simp_all
  have n: "0 < n" using Cons.prems(2) by simp
  have "?spots1 \<noteq> []"
  proof (cases "n < length spots")
    case True
    have "length (splice1 spots ?i) = length spots - 1"
      using i by (rule length_splice1)
    then have "0 < length (splice1 spots ?i)" using True n by linarith
    then show ?thesis using True by auto
  next
    case False
    then show ?thesis using Cons.prems(1) by simp
  qed
  then obtain qs spots' where
    rest: "mapNotes rnd str n (Suc idx) rest (?spots1, k + 2) = Inr (qs, (spots', k + 2 + 2 * length rest))"
    and ne: "spots' \<noteq> []"
    using Cons.IH [of ?spots1 "Suc idx" "k + 2"] n by blast
  show ?case
    using rest ne by (simp add: placeNote_Inr [OF assms(1) Cons.prems(1)])
qed

lemma mapNotes_notes:
  "mapNotes rnd str n idx ns st = Inr (ps, st') \<Longrightarrow> map NoteData.truncate ps = ns"
proof (induction ns arbitrary: idx st ps)
  case Nil
  then show ?case by simp
next
  case (Cons a rest)
  from Cons.prems obtain p st1 qs where
    step: "placeNote rnd str n a idx st = Inr (p, st1)"
    and rest: "mapNotes rnd str n (Suc idx) rest st1 = Inr (qs, st')" and ps: "ps = p # qs"
    by (rule mapNotes_Cons_InrD)
  have "NoteData.truncate p = a"
    using placeNote_InrD [of rnd str n a idx "fst st" "snd st" p st1] step
    by (simp add: NoteData.truncate_def)
  with Cons.IH [OF rest] ps show ?case by simp
qed

lemma mapNotes_ids:
  assumes "mapNotes rnd str n idx ns (spots, k) = Inr (ps, st')" and "j < length ps"
  shows "note_id (ps ! j) = ''note-'' @ decimal (idx + j) @ ''-'' @ str (rnd (k + 2 * j + 1))"
  using assms
proof (induction ns arbitrary: idx spots k ps j)
  case Nil
  then show ?case by simp
next
  case (Cons a rest)
  from Cons.prems(1) obtain p st1 qs where
    step: "placeNote rnd str n a idx (spots, k) = Inr (p, st1)"
    and rest: "mapNotes rnd str n (Suc idx) rest st1 = Inr (qs, st')" and ps: "ps = p # qs"
    by (rule mapNotes_Cons_InrD)
  note d = placeNote_InrD [OF step]
  show ?case
  proof (cases j)
    case 0
    then show ?thesis using d ps by simp
  next
    case (Suc j')
    have "snd st1 = k + 2" using d by simp
    then have "mapNotes rnd str n (Suc idx) rest (fst st1, k + 2) = Inr (qs, st')"
      using rest by (metis prod.collapse)
    moreover have "j' < length qs" using Cons.prems(2) ps Suc by simp
    ultimately have "note_id (qs ! j') = ''note-'' @ decimal (Suc idx + j') @ ''-'' @ str (rnd (k + 2 + 2 * j' + 1))"
      by (rule Cons.IH)
    then show ?thesis using ps Suc by simp
  qed
qed

lemma mapNotes_spots:
  "mapNotes rnd str n idx ns (spots, k) = Inr (ps, st') \<Longrightarrow> spotOf ` set ps \<subseteq> set spots"
proof (induction ns arbitrary: idx spots k ps)
  case Nil
  then show ?case by simp
next
  case (Cons a rest)
  from Cons.prems obtain p st1 qs where
    step: "placeNote rnd str n a idx (spots, k) = Inr (p, st1)"
    and rest: "mapNotes rnd str n (Suc idx) rest st1 = Inr (qs, st')" and ps: "ps = p # qs"
    by (rule mapNotes_Cons_InrD)
  note d = placeNote_InrD [OF step]
  let ?i = "drawn rnd k (length spots)"
  have p: "spotOf p = spots ! ?i" using d by (simp add: spotOf_def)
  have "set (fst st1) \<subseteq> set spots" using d set_splice1 [of spots ?i] by simp
  moreover have "spotOf ` set qs \<subseteq> set (fst st1)"
    using Cons.IH [of "Suc idx" "fst st1" "snd st1" qs] rest by simp
  ultimately show ?case using p d ps by auto
qed

lemma left_step:
  fixes m n r :: nat
  assumes "0 < m"
  shows "max (min (if n < m then m - 1 else m) n) ((if n < m then m - 1 else m) - r)
           = max (min m n) (m - Suc r)"
  using assms by (cases "n < m") auto

lemma mapNotes_left:
  "mapNotes rnd str n idx ns (spots, k) = Inr (ps, (spots', k'))
     \<Longrightarrow> length spots' = max (min (length spots) n) (length spots - length ns)"
proof (induction ns arbitrary: idx spots k ps)
  case Nil
  then show ?case by simp
next
  case (Cons a rest)
  from Cons.prems obtain p st1 qs where
    step: "placeNote rnd str n a idx (spots, k) = Inr (p, st1)"
    and rest: "mapNotes rnd str n (Suc idx) rest st1 = Inr (qs, (spots', k'))" and ps: "ps = p # qs"
    by (rule mapNotes_Cons_InrD)
  note d = placeNote_InrD [OF step]
  let ?i = "drawn rnd k (length spots)"
  have len1: "length (fst st1) = (if length spots > n then length spots - 1 else length spots)"
    using d by (simp add: length_splice1)
  have "length spots' = max (min (length (fst st1)) n) (length (fst st1) - length rest)"
    using Cons.IH [of "Suc idx" "fst st1" "snd st1" qs] rest by simp
  moreover have "0 < length spots" using d by linarith
  ultimately show ?case using len1 left_step [of "length spots" n "length rest"] by simp
qed

lemma mapNotes_distinct:
  assumes "mapNotes rnd str n idx ns (spots, k) = Inr (ps, st')"
    and "distinct spots" and "length ns + n \<le> length spots + 1"
  shows "distinct (map spotOf ps)"
  using assms
proof (induction ns arbitrary: idx spots k ps)
  case Nil
  then show ?case by simp
next
  case (Cons a rest)
  from Cons.prems(1) obtain p st1 qs where
    step: "placeNote rnd str n a idx (spots, k) = Inr (p, st1)"
    and rest: "mapNotes rnd str n (Suc idx) rest st1 = Inr (qs, st')" and ps: "ps = p # qs"
    by (rule mapNotes_Cons_InrD)
  note d = placeNote_InrD [OF step]
  let ?i = "drawn rnd k (length spots)"
  have p: "spotOf p = spots ! ?i" using d by (simp add: spotOf_def)
  show ?case
  proof (cases rest)
    case Nil
    then show ?thesis using rest ps by auto
  next
    case (Cons b more)
    then have more: "n < length spots" using Cons.prems(3) by simp
    then have st1: "st1 = (splice1 spots ?i, k + 2)" using d by simp
    have r: "mapNotes rnd str n (Suc idx) rest (splice1 spots ?i, k + 2) = Inr (qs, st')"
      using rest st1 by simp
    have dist: "distinct (splice1 spots ?i)" and fresh: "spots ! ?i \<notin> set (splice1 spots ?i)"
      using distinct_splice1 [of spots ?i] Cons.prems(2) d by simp_all
    have "length rest + n \<le> length (splice1 spots ?i) + 1"
      using Cons.prems(3) d by (simp add: length_splice1)
    with r dist have "distinct (map spotOf qs)" by (rule Cons.IH)
    moreover have "spotOf ` set qs \<subseteq> set (splice1 spots ?i)"
      using r by (rule mapNotes_spots)
    ultimately show ?thesis using ps p fresh by auto
  qed
qed

lemma of_char_digit: "d < 10 \<Longrightarrow> (of_char (digit d) :: nat) = 48 + d"
  by (simp add: digit_def)

lemma digit_inj:
  assumes "a < 10" and "b < 10" and "digit a = digit b"
  shows "a = b"
proof -
  from assms(3) have "(of_char (digit a) :: nat) = of_char (digit b)"
    by (rule arg_cong)
  then have "48 + a = 48 + b"
    by (simp only: of_char_digit [OF assms(1)] of_char_digit [OF assms(2)])
  then show ?thesis by simp
qed

lemma digit_not_dash: "d < 10 \<Longrightarrow> digit d \<noteq> CHR ''-''"
proof
  assume d: "d < 10" and "digit d = CHR ''-''"
  then have "(of_char (digit d) :: nat) = of_char (CHR ''-'')"
    by (simp only:)
  then have "48 + d = (of_char (CHR ''-'') :: nat)"
    by (simp only: of_char_digit [OF d])
  then show False by simp
qed

lemma decimal_not_Nil: "decimal n \<noteq> []"
  by (subst decimal.simps) simp

lemma dash_notin_decimal: "CHR ''-'' \<notin> set (decimal n)"
proof (induction n rule: decimal.induct)
  case (1 n)
  show ?case
  proof (cases "n < 10")
    case True
    then show ?thesis
      using digit_not_dash [of n] by (subst decimal.simps) auto
  next
    case False
    moreover have "digit (n mod 10) \<noteq> CHR ''-''"
      by (rule digit_not_dash) simp
    ultimately show ?thesis
      using 1 by (subst decimal.simps) auto
  qed
qed

lemma decimal_inj: "decimal n = decimal m \<Longrightarrow> n = m"
proof (induction n arbitrary: m rule: decimal.induct)
  case (1 n)
  show ?case
  proof (cases "n < 10")
    case small: True
    then have n: "decimal n = [digit n]" by (subst decimal.simps) simp
    show ?thesis
    proof (cases "m < 10")
      case True
      then have "decimal m = [digit m]" by (subst decimal.simps) simp
      with n "1.prems" have "digit n = digit m" by simp
      with small True show ?thesis by (rule digit_inj)
    next
      case False
      then have "decimal m = decimal (m div 10) @ [digit (m mod 10)]"
        by (subst decimal.simps) simp
      with n "1.prems" have "decimal (m div 10) = []" by simp
      then show ?thesis by (simp add: decimal_not_Nil)
    qed
  next
    case big: False
    then have n: "decimal n = decimal (n div 10) @ [digit (n mod 10)]"
      by (subst decimal.simps) simp
    show ?thesis
    proof (cases "m < 10")
      case True
      then have "decimal m = [digit m]" by (subst decimal.simps) simp
      with n "1.prems" have "decimal (n div 10) = []" by simp
      then show ?thesis by (simp add: decimal_not_Nil)
    next
      case False
      then have "decimal m = decimal (m div 10) @ [digit (m mod 10)]"
        by (subst decimal.simps) simp
      with n "1.prems" have front: "decimal (n div 10) = decimal (m div 10)"
        and last: "digit (n mod 10) = digit (m mod 10)" by simp_all
      from front have "n div 10 = m div 10" using big by (intro "1.IH") simp_all
      moreover have "n mod 10 = m mod 10"
        using last by (intro digit_inj) simp_all
      ultimately show ?thesis by (metis div_mult_mod_eq)
    qed
  qed
qed

lemma same_prefix_before:
  assumes "xs @ c # s = ys @ c # t" and "c \<notin> set xs" and "c \<notin> set ys"
  shows "xs = ys"
  using assms
proof (induction xs arbitrary: ys)
  case Nil
  then show ?case by (cases ys) auto
next
  case (Cons x xs)
  then show ?case by (cases ys) auto
qed

lemma id_text_inj:
  assumes "''note-'' @ decimal i @ ''-'' @ s = ''note-'' @ decimal j @ ''-'' @ t"
  shows "i = j"
proof -
  from assms have "decimal i @ CHR ''-'' # s = decimal j @ CHR ''-'' # t" by simp
  then have "decimal i = decimal j"
    by (rule same_prefix_before) (rule dash_notin_decimal)+
  then show ?thesis by (rule decimal_inj)
qed

lemma mapNotes_ids_distinct:
  assumes "mapNotes rnd str n idx ns (spots, k) = Inr (ps, st')"
  shows "distinct (map note_id ps)"
proof -
  have "i = j" if "i < length ps" "j < length ps" "note_id (ps ! i) = note_id (ps ! j)" for i j
  proof -
    have "''note-'' @ decimal (idx + i) @ ''-'' @ str (rnd (k + 2 * i + 1))
          = ''note-'' @ decimal (idx + j) @ ''-'' @ str (rnd (k + 2 * j + 1))"
      using that mapNotes_ids [OF assms] by simp
    then have "idx + i = idx + j" by (rule id_text_inj)
    then show ?thesis by simp
  qed
  then show ?thesis
    by (auto simp: distinct_conv_nth)
qed

lemma mapNotes_append:
  "mapNotes rnd str n idx (xs @ ys) st =
     (case mapNotes rnd str n idx xs st of
        Inl e \<Rightarrow> Inl e
      | Inr (ps, st') \<Rightarrow>
          (case mapNotes rnd str n (idx + length xs) ys st' of
             Inl e \<Rightarrow> Inl e
           | Inr (qs, st'') \<Rightarrow> Inr (ps @ qs, st'')))"
  by (induction xs arbitrary: idx st) (auto split: sum.splits prod.splits)

text \<open>
  The state in the middle of a run: the run on the first notes of a melody returns the
  first placed notes of the whole run, and the state from which the rest is placed.
\<close>

lemma mapNotes_prefix:
  assumes "mapNotes rnd str n idx (xs @ ys) st = Inr (qs, st'')"
  obtains st' where "mapNotes rnd str n idx xs st = Inr (take (length xs) qs, st')"
    and "mapNotes rnd str n (idx + length xs) ys st' = Inr (drop (length xs) qs, st'')"
proof -
  from assms obtain ps st' rs where
    a: "mapNotes rnd str n idx xs st = Inr (ps, st')"
    and b: "mapNotes rnd str n (idx + length xs) ys st' = Inr (rs, st'')"
    and q: "qs = ps @ rs"
    by (auto simp: mapNotes_append split: sum.splits prod.splits)
  have "length (map NoteData.truncate ps) = length xs"
    using mapNotes_notes [OF a] by simp
  then have "length ps = length xs" by simp
  then have "take (length xs) qs = ps" and "drop (length xs) qs = rs"
    using q by simp_all
  with a b that show ?thesis by simp
qed

text \<open>The numbers of the examples, and their products with the lengths met, are doubles.\<close>

lemma exact:
  "toDouble (7 / 16) = 7 / 16"
  "toDouble (13 / 16) = 13 / 16"
  "toDouble (5 / 8) = 5 / 8"
  "toDouble (3 / 16) = 3 / 16"
  "toDouble (3 / 8) = 3 / 8"
  "toDouble (9 / 16) = 9 / 16"
  "toDouble (11 / 16) = 11 / 16"
  "toDouble (1 / 8) = 1 / 8"
  "toDouble (1 / 16) = 1 / 16"
  "toDouble (15 / 16) = 15 / 16"
  "toDouble (1 / 2) = 1 / 2"
  "toDouble (21 / 16) = 21 / 16"
  "toDouble (15 / 8) = 15 / 8"
  "toDouble (9 / 8) = 9 / 8"
  "toDouble (35 / 16) = 35 / 16"
  "toDouble (5 / 2) = 5 / 2"
  "toDouble (7 / 8) = 7 / 8"
  "toDouble (5 / 4) = 5 / 4"
  "toDouble (3 / 4) = 3 / 4"
  "toDouble (11 / 8) = 11 / 8"
  using toDouble_dyadic [of 7 4] toDouble_dyadic [of 13 4] toDouble_dyadic [of 5 3] toDouble_dyadic [of 3 4] toDouble_dyadic [of 3 3] toDouble_dyadic [of 9 4] toDouble_dyadic [of 11 4] toDouble_dyadic [of 1 3] toDouble_dyadic [of 1 4] toDouble_dyadic [of 15 4] toDouble_dyadic [of 1 1] toDouble_dyadic [of 21 4] toDouble_dyadic [of 15 3] toDouble_dyadic [of 9 3] toDouble_dyadic [of 35 4] toDouble_dyadic [of 5 1] toDouble_dyadic [of 7 3] toDouble_dyadic [of 5 2] toDouble_dyadic [of 3 2] toDouble_dyadic [of 11 3]
  by simp_all

lemma exact_fiveSixths:
  "toDouble (3752999689475413 / 4503599627370496) = 3752999689475413 / 4503599627370496"
  using toDouble_dyadic [of 3752999689475413 52] by simp

lemma unit_someDraws: "unitInterval someDraws"
proof -
  have "\<forall>p \<in> set draws. toDouble (fst p) = fst p \<and> 0 \<le> fst p \<and> fst p < 1"
    by (simp add: draws_def exact)
  then show ?thesis
    by (simp add: unitInterval_def someDraws_def exact)
qed

lemma unit_fiveSixths: "unitInterval fiveSixths"
  by (simp add: unitInterval_def fiveSixths_def exact_fiveSixths)

lemma digit_table: "n < 10 \<Longrightarrow> digit n = ''0123456789'' ! n"
proof -
  assume "n < 10"
  then have "n \<in> set [0, 1, 2, 3, 4, 5, 6, 7, 8, 9]" by auto
  moreover have "\<forall>n \<in> set [0, 1, 2, 3, 4, 5, 6, 7, 8, 9]. digit n = ''0123456789'' ! n"
    by code_simp
  ultimately show ?thesis by blast
qed

lemma decimal_small: "n < 10 \<Longrightarrow> decimal n = [''0123456789'' ! n]"
  by (subst decimal.simps) (simp add: digit_table)

lemmas examples =
  fiveNotes_def threeNotes_def fiveSpots_def threeSpots_def someDraws_def draws_def textOf_def

lemmas placement = placeNote_def Let_def splice1_def decimal_small exact

text \<open>
  C5. For a melody of \<open>N\<close> notes and at least one candidate spot, placement returns
  exactly \<open>N\<close> placed notes, and the \<open>i\<close>-th placed note carries the value, frequency and
  duration of the \<open>i\<close>-th note of the melody; this holds as well when there are fewer
  spots than notes, and then some coordinate is given to two notes.
\<close>

theorem every_note_is_placed:
  assumes "unitInterval rnd" and "validSpots \<noteq> []"
  shows "\<exists>ps. placeNotes rnd str melody validSpots = Inr ps
              \<and> length ps = length melody \<and> map NoteData.truncate ps = melody
              \<and> (length validSpots < length melody \<longrightarrow> \<not> distinct (map spotOf ps))"
proof -
  obtain ps st where
    r: "mapNotes rnd str (length melody) 0 melody (validSpots, 0) = Inr (ps, st)"
    using mapNotes_total [OF assms, of melody "length melody" str 0 0] by auto
  then have m: "map NoteData.truncate ps = melody" by (rule mapNotes_notes)
  then have "length (map NoteData.truncate ps) = length melody" by simp
  then have len: "length ps = length melody" by simp
  have "\<not> distinct (map spotOf ps)" if fewer: "length validSpots < length melody"
  proof
    assume "distinct (map spotOf ps)"
    then have "card (set (map spotOf ps)) = length (map spotOf ps)"
      by (rule distinct_card)
    moreover have "set (map spotOf ps) \<subseteq> set validSpots"
      using mapNotes_spots [OF r] by simp
    then have "card (set (map spotOf ps)) \<le> card (set validSpots)"
      by (intro card_mono) simp_all
    moreover have "card (set validSpots) \<le> length validSpots"
      by (rule card_length)
    ultimately show False using len fewer by simp
  qed
  with r m len show ?thesis by (simp add: placeNotes_def)
qed

text \<open>Five notes on two spots: five placed notes, which take the two spots in turn.\<close>

theorem every_note_is_placed_witness:
  "unitInterval someDraws \<and> take 2 fiveSpots \<noteq> []
   \<and> (\<exists>ps. placeNotes someDraws textOf fiveNotes (take 2 fiveSpots) = Inr ps
         \<and> length ps = 5 \<and> map NoteData.truncate ps = fiveNotes
         \<and> \<not> distinct (map spotOf ps))
   \<and> map_sum id (map spotOf) (placeNotes someDraws textOf fiveNotes (take 2 fiveSpots))
       = Inr [\<lparr>spot_x = 15, spot_y = 15\<rparr>, \<lparr>spot_x = 30, spot_y = 15\<rparr>, \<lparr>spot_x = 15, spot_y = 15\<rparr>,
              \<lparr>spot_x = 30, spot_y = 15\<rparr>, \<lparr>spot_x = 15, spot_y = 15\<rparr>]"
proof -
  have u: "unitInterval someDraws" by (rule unit_someDraws)
  have ne: "take 2 fiveSpots \<noteq> []" by (simp add: fiveSpots_def)
  have len: "length fiveNotes = 5" by (simp add: fiveNotes_def)
  have fewer: "length (take 2 fiveSpots) < 5" by (simp add: fiveSpots_def)
  have run: "map_sum id (map spotOf) (placeNotes someDraws textOf fiveNotes (take 2 fiveSpots))
       = Inr [\<lparr>spot_x = 15, spot_y = 15\<rparr>, \<lparr>spot_x = 30, spot_y = 15\<rparr>, \<lparr>spot_x = 15, spot_y = 15\<rparr>,
              \<lparr>spot_x = 30, spot_y = 15\<rparr>, \<lparr>spot_x = 15, spot_y = 15\<rparr>]"
    by (simp add: placeNotes_def placement examples spotOf_def)
  show ?thesis
    using every_note_is_placed [OF u ne, of textOf fiveNotes] u ne run fewer
    unfolding len by blast
qed

text \<open>
  C10. When the candidate set is not empty, placement never reads outside the array:
  after any number \<open>j\<close> of notes the \<^verbatim>\<open>map\<close> has not thrown, the array still holds at
  least \<open>min M N\<close> spots and is not empty, the index
  \<^verbatim>\<open>Math.floor(Math.random() * validSpots.length)\<close> drawn for the next note, with the
  product rounded to a double, lies inside it, and every note placed so far has the
  coordinates of one of the candidates. The whole run succeeds, and the notes placed after
  \<open>j\<close> notes are its first \<open>j\<close> placed notes.
\<close>

theorem draws_stay_inside:
  assumes "unitInterval rnd" and "validSpots \<noteq> []" and "j \<le> length melody"
  shows "\<exists>ps spots k qs.
           mapNotes rnd str (length melody) 0 (take j melody) (validSpots, 0) = Inr (ps, (spots, k))
           \<and> spots \<noteq> []
           \<and> min (length validSpots) (length melody) \<le> length spots
           \<and> 0 \<le> \<lfloor>toDouble (rnd k * real (length spots))\<rfloor>
           \<and> \<lfloor>toDouble (rnd k * real (length spots))\<rfloor> < int (length spots)
           \<and> length ps = j
           \<and> spotOf ` set ps \<subseteq> set validSpots
           \<and> placeNotes rnd str melody validSpots = Inr qs
           \<and> take j qs = ps"
proof -
  have "take j melody = [] \<or> 0 < length melody"
    by (cases melody) simp_all
  then obtain ps spots where
    r: "mapNotes rnd str (length melody) 0 (take j melody) (validSpots, 0)
          = Inr (ps, (spots, 0 + 2 * length (take j melody)))"
    and ne: "spots \<noteq> []"
    using mapNotes_total [OF assms(1,2), of "take j melody" "length melody" str 0 0] by auto
  let ?k = "0 + 2 * length (take j melody)"
  have "length spots = max (min (length validSpots) (length melody))
                           (length validSpots - length (take j melody))"
    using r by (rule mapNotes_left)
  then have low: "min (length validSpots) (length melody) \<le> length spots" by simp
  have "toDouble (rnd ?k) = rnd ?k" and "0 \<le> rnd ?k" and "rnd ?k < 1"
    using assms(1) by (simp_all add: unitInterval_def)
  moreover have "0 < length spots" using ne by simp
  ultimately have draw: "0 \<le> \<lfloor>toDouble (rnd ?k * real (length spots))\<rfloor>
                       \<and> \<lfloor>toDouble (rnd ?k * real (length spots))\<rfloor> < int (length spots)"
    by (rule draw_in_range)
  have "length (map NoteData.truncate ps) = length (take j melody)"
    using mapNotes_notes [OF r] by simp
  then have len: "length ps = j" using assms(3) by simp
  have sub: "spotOf ` set ps \<subseteq> set validSpots"
    using r by (rule mapNotes_spots)
  obtain qs st where
    w: "mapNotes rnd str (length melody) 0 melody (validSpots, 0) = Inr (qs, st)"
    using mapNotes_total [OF assms(1,2), of melody "length melody" str 0 0] by auto
  then have whole: "placeNotes rnd str melody validSpots = Inr qs"
    by (simp add: placeNotes_def)
  have "mapNotes rnd str (length melody) 0 (take j melody @ drop j melody) (validSpots, 0)
          = Inr (qs, st)"
    using w by simp
  then obtain st' where
    "mapNotes rnd str (length melody) 0 (take j melody) (validSpots, 0)
       = Inr (take (length (take j melody)) qs, st')"
    by (rule mapNotes_prefix)
  with r have "take (length (take j melody)) qs = ps" by simp
  then have first: "take j qs = ps" using assms(3) by simp
  from r ne low draw len sub whole first show ?thesis by blast
qed

text \<open>
  Three notes on six spots, after one note. The first draw is the double next to five
  sixths: its exact product with 6 is below 5, the rounded product is 5, and the note
  goes to the last of the six spots.
\<close>

theorem draws_stay_inside_witness:
  "unitInterval fiveSixths \<and> sixSpots \<noteq> [] \<and> (1::nat) \<le> length threeNotes
   \<and> \<lfloor>fiveSixths 0 * real (length sixSpots)\<rfloor> = 4
   \<and> \<lfloor>toDouble (fiveSixths 0 * real (length sixSpots))\<rfloor> = 5
   \<and> map_sum id (map spotOf \<circ> fst) (mapNotes fiveSixths textOf 3 0 (take 1 threeNotes) (sixSpots, 0))
       = Inr [\<lparr>spot_x = 90, spot_y = 15\<rparr>]
   \<and> (\<exists>ps spots k qs.
           mapNotes fiveSixths textOf 3 0 (take 1 threeNotes) (sixSpots, 0) = Inr (ps, (spots, k))
           \<and> spots \<noteq> []
           \<and> 3 \<le> length spots
           \<and> 0 \<le> \<lfloor>toDouble (fiveSixths k * real (length spots))\<rfloor>
           \<and> \<lfloor>toDouble (fiveSixths k * real (length spots))\<rfloor> < int (length spots)
           \<and> length ps = 1
           \<and> spotOf ` set ps \<subseteq> set sixSpots
           \<and> placeNotes fiveSixths textOf threeNotes sixSpots = Inr qs
           \<and> take 1 qs = ps)"
proof -
  have u: "unitInterval fiveSixths" by (rule unit_fiveSixths)
  have ne: "sixSpots \<noteq> []" by (simp add: sixSpots_def)
  have j: "(1::nat) \<le> length threeNotes" by (simp add: examples)
  have len: "length threeNotes = 3" "min (length sixSpots) 3 = 3"
    by (simp_all add: examples sixSpots_def)
  have exactly: "\<lfloor>fiveSixths 0 * real (length sixSpots)\<rfloor> = 4"
    by (simp add: fiveSixths_def sixSpots_def)
  have rounded: "\<lfloor>toDouble (fiveSixths 0 * real (length sixSpots))\<rfloor> = 5"
    by (simp add: fiveSixths_def sixSpots_def tie_rounds_to_five)
  have run: "map_sum id (map spotOf \<circ> fst)
               (mapNotes fiveSixths textOf 3 0 (take 1 threeNotes) (sixSpots, 0))
             = Inr [\<lparr>spot_x = 90, spot_y = 15\<rparr>]"
    by (simp add: placement examples fiveSixths_def sixSpots_def tie_rounds_to_five spotOf_def)
  show ?thesis
    using draws_stay_inside [OF u ne j, of textOf] u ne j exactly rounded run
    unfolding len by blast
qed

text \<open>
  C9. The identifiers of the placed notes of one cycle are pairwise different: the
  identifier of the note at position \<open>i\<close> is \<^verbatim>\<open>note-\<close>, the decimal digits of \<open>i\<close>, a
  dash and the text of a random number, and the digits of two positions differ.
\<close>

theorem ids_are_unique:
  assumes "placeNotes rnd str melody validSpots = Inr ps"
  shows "distinct (map note_id ps)
         \<and> (\<forall>i < length ps. note_id (ps ! i) = ''note-'' @ decimal i @ ''-'' @ str (rnd (2 * i + 1)))"
proof -
  obtain st where
    r: "mapNotes rnd str (length melody) 0 melody (validSpots, 0) = Inr (ps, st)"
    using assms by (auto simp: placeNotes_def split: sum.splits)
  have "distinct (map note_id ps)"
    using r by (rule mapNotes_ids_distinct)
  moreover have "note_id (ps ! i) = ''note-'' @ decimal i @ ''-'' @ str (rnd (2 * i + 1))"
    if "i < length ps" for i
    using mapNotes_ids [OF r that] by simp
  ultimately show ?thesis by blast
qed

text \<open>Three notes that share the only spot have three different identifiers.\<close>

theorem ids_are_unique_witness:
  "placeNotes someDraws textOf threeNotes (take 1 fiveSpots) = Inr placedOnOneSpot
   \<and> distinct (map note_id placedOnOneSpot)
   \<and> map spotOf placedOnOneSpot = replicate 3 \<lparr>spot_x = 15, spot_y = 15\<rparr>"
proof -
  have run: "placeNotes someDraws textOf threeNotes (take 1 fiveSpots) = Inr placedOnOneSpot"
    by (simp add: placeNotes_def placement examples placedOnOneSpot_def)
  have "map spotOf placedOnOneSpot = replicate 3 \<lparr>spot_x = 15, spot_y = 15\<rparr>"
    by (simp add: placedOnOneSpot_def spotOf_def numeral_3_eq_3)
  with ids_are_unique [OF run] run show ?thesis by blast
qed

text \<open>
  C1, as the code has it. For a melody of \<open>N\<close> notes and \<open>M \<ge> 1\<close> candidate spots the
  placement succeeds, and at every note the drawn spot is removed exactly when the array
  then holds more spots than the whole melody has notes
  (\<^verbatim>\<open>validSpots.length > melody.length\<close>), whatever the number of notes still to place:
  the run on the first \<open>j + 1\<close> notes leaves the array that the run on the first \<open>j\<close>
  notes left, without the drawn spot in the one case and unchanged in the other. So the
  placement ends with \<open>max (min M N) (M - N)\<close> spots in the array, and the coordinates
  given to the notes are pairwise different when the candidates are and \<open>M \<ge> 2 N - 1\<close>.
\<close>

theorem removal_compares_with_whole_melody:
  assumes "unitInterval rnd" and "validSpots \<noteq> []"
  shows "\<exists>qs final kf.
           mapNotes rnd str (length melody) 0 melody (validSpots, 0) = Inr (qs, (final, kf))
           \<and> placeNotes rnd str melody validSpots = Inr qs
           \<and> (\<forall>j < length melody. \<exists>spots k.
                 mapNotes rnd str (length melody) 0 (take j melody) (validSpots, 0)
                   = Inr (take j qs, (spots, k))
                 \<and> drawn rnd k (length spots) < length spots
                 \<and> spotOf (qs ! j) = spots ! drawn rnd k (length spots)
                 \<and> mapNotes rnd str (length melody) 0 (take (Suc j) melody) (validSpots, 0)
                     = Inr (take (Suc j) qs,
                            (if length melody < length spots
                             then splice1 spots (drawn rnd k (length spots)) else spots,
                             k + 2)))
           \<and> length final = max (min (length validSpots) (length melody))
                                  (length validSpots - length melody)
           \<and> (distinct validSpots \<and> 2 * length melody \<le> length validSpots + 1
                \<longrightarrow> distinct (map spotOf qs))"
proof -
  let ?N = "length melody"
  obtain qs final where
    w: "mapNotes rnd str ?N 0 melody (validSpots, 0) = Inr (qs, (final, 0 + 2 * ?N))"
    using mapNotes_total [OF assms, of melody ?N str 0 0] by auto
  have whole: "placeNotes rnd str melody validSpots = Inr qs"
    using w by (simp add: placeNotes_def)
  have "length (map NoteData.truncate qs) = ?N"
    using mapNotes_notes [OF w] by simp
  then have lq: "length qs = ?N" by simp
  have left: "length final = max (min (length validSpots) ?N) (length validSpots - ?N)"
    using w by (rule mapNotes_left)
  have dist: "distinct (map spotOf qs)"
    if "distinct validSpots" and "2 * ?N \<le> length validSpots + 1"
    using w that(1) by (rule mapNotes_distinct) (use that(2) in simp)
  have steps: "\<exists>spots k.
      mapNotes rnd str ?N 0 (take j melody) (validSpots, 0) = Inr (take j qs, (spots, k))
      \<and> drawn rnd k (length spots) < length spots
      \<and> spotOf (qs ! j) = spots ! drawn rnd k (length spots)
      \<and> mapNotes rnd str ?N 0 (take (Suc j) melody) (validSpots, 0)
          = Inr (take (Suc j) qs,
                 (if ?N < length spots then splice1 spots (drawn rnd k (length spots)) else spots,
                  k + 2))"
    if j: "j < ?N" for j
  proof -
    have lj: "length (take j melody) = j" using j by simp
    have "mapNotes rnd str ?N 0 (take j melody @ drop j melody) (validSpots, 0)
            = Inr (qs, (final, 0 + 2 * ?N))"
      using w by simp
    then obtain st' where
      a: "mapNotes rnd str ?N 0 (take j melody) (validSpots, 0)
            = Inr (take (length (take j melody)) qs, st')"
      and b: "mapNotes rnd str ?N (0 + length (take j melody)) (drop j melody) st'
            = Inr (drop (length (take j melody)) qs, (final, 0 + 2 * ?N))"
      by (rule mapNotes_prefix)
    obtain spots k where st': "st' = (spots, k)" by (cases st')
    have a': "mapNotes rnd str ?N 0 (take j melody) (validSpots, 0) = Inr (take j qs, (spots, k))"
      using a lj st' by simp
    have b': "mapNotes rnd str ?N j (drop j melody) (spots, k)
                 = Inr (drop j qs, (final, 0 + 2 * ?N))"
      using b unfolding lj st' by simp
    have dm: "drop j melody = melody ! j # drop (Suc j) melody"
      using j by (simp add: Cons_nth_drop_Suc)
    have "mapNotes rnd str ?N j (melody ! j # drop (Suc j) melody) (spots, k)
                 = Inr (drop j qs, (final, 0 + 2 * ?N))"
      using b' unfolding dm .
    then obtain p st1 rs where
      step: "placeNote rnd str ?N (melody ! j) j (spots, k) = Inr (p, st1)"
      and rest: "drop j qs = p # rs"
      by (rule mapNotes_Cons_InrD)
    have p: "qs ! j = p" using rest by (rule nth_via_drop)
    note d = placeNote_InrD [OF step]
    have inside: "drawn rnd k (length spots) < length spots" using d by simp
    have coord: "spotOf (qs ! j) = spots ! drawn rnd k (length spots)"
      using d p by (simp add: spotOf_def)
    have st1: "st1 = (if ?N < length spots then splice1 spots (drawn rnd k (length spots)) else spots,
                     k + 2)"
      using d by simp
    have "take (Suc j) melody = take j melody @ [melody ! j]"
      using j by (simp add: take_Suc_conv_app_nth)
    then have "mapNotes rnd str ?N 0 (take (Suc j) melody) (validSpots, 0)
                 = Inr (take j qs @ [p], st1)"
      using a' lj step by (simp add: mapNotes_append)
    moreover have "take (Suc j) qs = take j qs @ [p]"
      using j lq p by (simp add: take_Suc_conv_app_nth)
    ultimately have "mapNotes rnd str ?N 0 (take (Suc j) melody) (validSpots, 0)
                 = Inr (take (Suc j) qs,
                        (if ?N < length spots then splice1 spots (drawn rnd k (length spots)) else spots,
                         k + 2))"
      using st1 by simp
    with a' inside coord show ?thesis by blast
  qed
  from w whole steps left dist show ?thesis by blast
qed

text \<open>
  Three notes on five spots. The first two draws are removed, from five spots and from
  four; the third is not, from three spots. The three coordinates differ.
\<close>

theorem removal_compares_with_whole_melody_witness:
  "unitInterval someDraws \<and> fiveSpots \<noteq> [] \<and> distinct fiveSpots
   \<and> 2 * length threeNotes \<le> length fiveSpots + 1
   \<and> map_sum id (map spotOf) (placeNotes someDraws textOf threeNotes fiveSpots)
       = Inr [\<lparr>spot_x = 15, spot_y = 30\<rparr>, \<lparr>spot_x = 30, spot_y = 30\<rparr>, \<lparr>spot_x = 30, spot_y = 15\<rparr>]
   \<and> map_sum id snd (mapNotes someDraws textOf 3 0 (take 1 threeNotes) (fiveSpots, 0))
       = Inr ([\<lparr>spot_x = 15, spot_y = 15\<rparr>, \<lparr>spot_x = 30, spot_y = 15\<rparr>,
               \<lparr>spot_x = 30, spot_y = 30\<rparr>, \<lparr>spot_x = 45, spot_y = 30\<rparr>], 2)
   \<and> map_sum id snd (mapNotes someDraws textOf 3 0 (take 2 threeNotes) (fiveSpots, 0))
       = Inr ([\<lparr>spot_x = 15, spot_y = 15\<rparr>, \<lparr>spot_x = 30, spot_y = 15\<rparr>,
               \<lparr>spot_x = 45, spot_y = 30\<rparr>], 4)
   \<and> map_sum id snd (mapNotes someDraws textOf 3 0 (take 3 threeNotes) (fiveSpots, 0))
       = Inr ([\<lparr>spot_x = 15, spot_y = 15\<rparr>, \<lparr>spot_x = 30, spot_y = 15\<rparr>,
               \<lparr>spot_x = 45, spot_y = 30\<rparr>], 6)
   \<and> (\<exists>qs final kf.
           mapNotes someDraws textOf 3 0 threeNotes (fiveSpots, 0) = Inr (qs, (final, kf))
           \<and> placeNotes someDraws textOf threeNotes fiveSpots = Inr qs
           \<and> (\<forall>j < 3. \<exists>spots k.
                 mapNotes someDraws textOf 3 0 (take j threeNotes) (fiveSpots, 0)
                   = Inr (take j qs, (spots, k))
                 \<and> drawn someDraws k (length spots) < length spots
                 \<and> spotOf (qs ! j) = spots ! drawn someDraws k (length spots)
                 \<and> mapNotes someDraws textOf 3 0 (take (Suc j) threeNotes) (fiveSpots, 0)
                     = Inr (take (Suc j) qs,
                            (if 3 < length spots
                             then splice1 spots (drawn someDraws k (length spots)) else spots,
                             k + 2)))
           \<and> length final = 3
           \<and> distinct (map spotOf qs))"
proof -
  have u: "unitInterval someDraws" by (rule unit_someDraws)
  have ne: "fiveSpots \<noteq> []" by (simp add: fiveSpots_def)
  have d: "distinct fiveSpots" by (simp add: fiveSpots_def)
  have enough: "2 * length threeNotes \<le> length fiveSpots + 1"
    by (simp add: examples)
  have len: "length threeNotes = 3"
    "max (min (length fiveSpots) 3) (length fiveSpots - 3) = 3"
    by (simp_all add: examples)
  have run: "map_sum id (map spotOf) (placeNotes someDraws textOf threeNotes fiveSpots)
       = Inr [\<lparr>spot_x = 15, spot_y = 30\<rparr>, \<lparr>spot_x = 30, spot_y = 30\<rparr>, \<lparr>spot_x = 30, spot_y = 15\<rparr>]"
    by (simp add: placeNotes_def placement examples spotOf_def)
  have one: "map_sum id snd (mapNotes someDraws textOf 3 0 (take 1 threeNotes) (fiveSpots, 0))
       = Inr ([\<lparr>spot_x = 15, spot_y = 15\<rparr>, \<lparr>spot_x = 30, spot_y = 15\<rparr>,
               \<lparr>spot_x = 30, spot_y = 30\<rparr>, \<lparr>spot_x = 45, spot_y = 30\<rparr>], 2)"
    by (simp add: placement examples)
  have two: "map_sum id snd (mapNotes someDraws textOf 3 0 (take 2 threeNotes) (fiveSpots, 0))
       = Inr ([\<lparr>spot_x = 15, spot_y = 15\<rparr>, \<lparr>spot_x = 30, spot_y = 15\<rparr>,
               \<lparr>spot_x = 45, spot_y = 30\<rparr>], 4)"
    by (simp add: placement examples)
  have three: "map_sum id snd (mapNotes someDraws textOf 3 0 (take 3 threeNotes) (fiveSpots, 0))
       = Inr ([\<lparr>spot_x = 15, spot_y = 15\<rparr>, \<lparr>spot_x = 30, spot_y = 15\<rparr>,
               \<lparr>spot_x = 45, spot_y = 30\<rparr>], 6)"
    by (simp add: placement examples)
  show ?thesis
    using removal_compares_with_whole_melody [OF u ne, of textOf threeNotes]
      u ne d enough run one two three
    unfolding len by blast
qed

text \<open>
  With as many spots as notes the coordinates need not differ: for three notes and three
  spots nothing is removed, and the draws 0.4375, 0.625 and 0.375 all give index 1, which
  puts the three notes on the second spot.
\<close>

theorem distinct_when_as_many_spots_counterexample:
  "unitInterval someDraws \<and> length threeNotes \<le> length threeSpots \<and> distinct threeSpots
   \<and> map_sum id (map spotOf) (placeNotes someDraws textOf threeNotes threeSpots)
       = Inr [\<lparr>spot_x = 30, spot_y = 15\<rparr>, \<lparr>spot_x = 30, spot_y = 15\<rparr>, \<lparr>spot_x = 30, spot_y = 15\<rparr>]
   \<and> map_sum id (distinct \<circ> map spotOf) (placeNotes someDraws textOf threeNotes threeSpots)
       = Inr False
   \<and> map_sum id snd (mapNotes someDraws textOf 3 0 threeNotes (threeSpots, 0))
       = Inr (threeSpots, 6)"
  by (simp add: unit_someDraws placeNotes_def placement examples spotOf_def)

section \<open>The generation cycle\<close>

text \<open>
  C6. When the sampling finds no spot, the handler sets the message of
  \<open>noShapeMessage\<close> and does nothing else: no note is placed. At the end of the cycle
  the list of placed notes is empty, the message is shown, and the component is neither
  loading nor playing, so that a new prompt can be submitted.
\<close>

theorem no_shape_no_placement:
  assumes "sampleSpots data = []" and "\<not> blank prompt" and "truthy imgUrl"
  shows "onload rnd str (Some data) melody app = app\<lparr>error := Some noShapeMessage\<rparr>
         \<and> error (generationCycle rnd str prompt imgUrl melody (Some data) app) = Some noShapeMessage
         \<and> placedNotes (generationCycle rnd str prompt imgUrl melody (Some data) app) = []
         \<and> isLoading (generationCycle rnd str prompt imgUrl melody (Some data) app) = False
         \<and> isPlaying (generationCycle rnd str prompt imgUrl melody (Some data) app) = False
         \<and> currentNoteIndex (generationCycle rnd str prompt imgUrl melody (Some data) app) = None"
  using assms by (simp add: onload_def generationCycle_def handleGenerate_def Let_def)

text \<open>A white image, after a cycle that had placed notes.\<close>

theorem no_shape_no_placement_witness:
  "sampleSpots whiteImage = [] \<and> \<not> blank birdPrompt \<and> truthy (Some ''data:image/png;base64,AAAA'')
   \<and> generationCycle someDraws textOf birdPrompt (Some ''data:image/png;base64,AAAA'') threeNotes
        (Some whiteImage) readyApp
      = initialApp\<lparr>imageSrc := Some ''data:image/png;base64,AAAA'', error := Some noShapeMessage\<rparr>"
proof -
  have w: "sampleSpots whiteImage = []" by (rule sampleSpots_white)
  have b: "\<not> blank birdPrompt" by (simp add: blank_def whiteSpace_def birdPrompt_def)
  have t: "truthy (Some ''data:image/png;base64,AAAA'')" by (simp add: truthy_def)
  have "generationCycle someDraws textOf birdPrompt (Some ''data:image/png;base64,AAAA'') threeNotes
        (Some whiteImage) readyApp
      = initialApp\<lparr>imageSrc := Some ''data:image/png;base64,AAAA'', error := Some noShapeMessage\<rparr>"
    using no_shape_no_placement [OF w b t, of someDraws textOf threeNotes
        "handleGenerate birdPrompt (ServicesGave (Some ''data:image/png;base64,AAAA'') threeNotes) readyApp"]
      b t
    by (simp add: generationCycle_def handleGenerate_def Let_def readyApp_def initialApp_def)
  with w b t show ?thesis by simp
qed

section \<open>Playback\<close>

lemmas playback =
  run_def togglePlayback_def playFrom_def settle_def afterLoop_def Let_def
  readyApp_def initialApp_def placedOnOneSpot_def

text \<open>
  C2. The claim is that a stop clears the cancellation token and resets the index to none
  at once, without waiting for the tone in flight. The stop branch of \<^verbatim>\<open>togglePlayback\<close>
  clears \<^verbatim>\<open>playbackRef\<close> and \<^verbatim>\<open>isPlaying\<close> and leaves \<^verbatim>\<open>currentNoteIndex\<close> as it is; the
  two other resets of the component, at the start of \<^verbatim>\<open>handleGenerate\<close> and after the
  loop, clear all three. After a start and a stop the index is still 0 while
  \<^verbatim>\<open>isPlaying\<close> is false and the call that plays note 0 is still suspended; if that tone
  then fails, the index stays 0.
\<close>

theorem stop_leaves_index_set:
  "isPlaying (run readyApp [Click])
   \<and> currentNoteIndex (run readyApp [Click]) = Some 0
   \<and> playbackRef (run readyApp [Click, Click]) = False
   \<and> isPlaying (run readyApp [Click, Click]) = False
   \<and> currentNoteIndex (run readyApp [Click, Click]) = Some 0
   \<and> map pass_id (awaiting (run readyApp [Click, Click])) = [0]
   \<and> currentNoteIndex (run readyApp [Click, Click, Failed 0]) = Some 0
   \<and> awaiting (run readyApp [Click, Click, Failed 0]) = []
   \<and> currentNoteIndex (handleGenerate birdPrompt ServicesFailed (run readyApp [Click])) = None
   \<and> currentNoteIndex (afterLoop (run readyApp [Click])) = None"
  by (simp add: playback handleGenerate_def blank_def whiteSpace_def birdPrompt_def)

text \<open>
  What the stop leaves to the suspended call: when the tone in flight ends well and
  nothing else has happened since the stop, that call finds the cell cleared, plays no
  further note and runs the statements after the loop, which clear the index.
\<close>

lemma stop_then_end_of_tone:
  assumes "isPlaying app"
  shows "togglePlayback app = app\<lparr>playbackRef := False, isPlaying := False\<rparr>
         \<and> currentNoteIndex (togglePlayback app) = currentNoteIndex app
         \<and> (\<forall>p \<in> set (awaiting app).
               settle (pass_id p) True (togglePlayback app)
                 = app\<lparr>playbackRef := False, isPlaying := False, currentNoteIndex := None,
                        awaiting := filter (\<lambda>q. pass_id q \<noteq> pass_id p) (awaiting app)\<rparr>)"
proof -
  have stop: "togglePlayback app = app\<lparr>playbackRef := False, isPlaying := False\<rparr>"
    using assms by (simp add: togglePlayback_def)
  have "settle (pass_id p) True (app\<lparr>playbackRef := False, isPlaying := False\<rparr>)
          = app\<lparr>playbackRef := False, isPlaying := False, currentNoteIndex := None,
                 awaiting := filter (\<lambda>q. pass_id q \<noteq> pass_id p) (awaiting app)\<rparr>"
    if "p \<in> set (awaiting app)" for p
  proof -
    have "filter (\<lambda>q. pass_id q = pass_id p) (awaiting app) \<noteq> []"
      using that by (auto simp: filter_empty_conv)
    then obtain q qs where "filter (\<lambda>q. pass_id q = pass_id p) (awaiting app) = q # qs"
      by (cases "filter (\<lambda>q. pass_id q = pass_id p) (awaiting app)") auto
    then show ?thesis
      by (simp add: settle_def playFrom_def afterLoop_def Let_def)
  qed
  with stop show ?thesis by simp
qed

text \<open>
  C3. The claim is that a tone that fails ends the pass and leaves the component idle.
  In \<^verbatim>\<open>togglePlayback\<close> nothing catches the rejection: the pass ends, and the statements
  after the loop do not run. After a start and the failure of the first tone the
  component still has \<^verbatim>\<open>isPlaying\<close> and \<^verbatim>\<open>playbackRef\<close> set and shows index 0, with no
  call left that could reset them.
\<close>

theorem failed_tone_leaves_playing:
  "isPlaying (run readyApp [Click, Failed 0])
   \<and> playbackRef (run readyApp [Click, Failed 0])
   \<and> currentNoteIndex (run readyApp [Click, Failed 0]) = Some 0
   \<and> awaiting (run readyApp [Click, Failed 0]) = []
   \<and> map (fst \<circ> snd) (tones (run readyApp [Click, Failed 0])) = [0]"
  by (simp add: playback)

text \<open>
  C7. The claim is that after a stop the pass plays no further note and ends with the
  tone in flight. A click that starts playback again before that tone ends sets
  \<^verbatim>\<open>playbackRef\<close> again, and the stopped pass finds it set at its next check: after
  start, stop, start and the end of the first tone of pass 0, pass 0 plays its note 1, and
  then its note 2.
\<close>

theorem stopped_pass_goes_on_after_restart:
  "isPlaying (run readyApp [Click])
   \<and> \<not> playbackRef (run readyApp [Click, Click])
   \<and> map fst (tones (run readyApp [Click, Click, Click, Finished 0])) = [0, 1, 0]
   \<and> map (fst \<circ> snd) (tones (run readyApp [Click, Click, Click, Finished 0])) = [0, 0, 1]
   \<and> currentNoteIndex (run readyApp [Click, Click, Click, Finished 0]) = Some 1
   \<and> map pass_id (awaiting (run readyApp [Click, Click, Click, Finished 0])) = [1, 0]
   \<and> map fst (tones (run readyApp [Click, Click, Click, Finished 0, Finished 0, Finished 0])) = [0, 1, 0, 0]
   \<and> map (fst \<circ> snd) (tones (run readyApp [Click, Click, Click, Finished 0, Finished 0, Finished 0]))
        = [0, 0, 1, 2]"
  by (simp add: playback)

text \<open>
  C8. The claim is that at most one pass is active and at most one tone sounds. After
  start, stop, start, two calls of \<^verbatim>\<open>togglePlayback\<close> are suspended in their loops, each
  waiting for its own tone.
\<close>

theorem two_passes_at_once:
  "map pass_id (awaiting (run readyApp [Click, Click, Click])) = [0, 1]
   \<and> map pass_i (awaiting (run readyApp [Click, Click, Click])) = [0, 0]
   \<and> map fst (tones (run readyApp [Click, Click, Click])) = [0, 1]
   \<and> isPlaying (run readyApp [Click, Click, Click])"
  by (simp add: playback)

end
